theory Spec2Isabelle
  imports Complex_Main "HOL-Library.AList"
begin

section \<open>Python values used by the supervisor\<close>

text \<open>
  The supervisor is \<^verbatim>\<open>src/runner.py\<close> (class \<^verbatim>\<open>Runner\<close>) together with the
  formatting half of \<^verbatim>\<open>src/notifier.py\<close> (class \<^verbatim>\<open>Notifier\<close>).

  A Python \<^verbatim>\<open>str\<close> is modelled as a \<^typ>\<open>string\<close>, one \<^typ>\<open>char\<close> per code point, so
  the texts range over the code points below 256. Epoch timestamps (\<^verbatim>\<open>time.time()\<close>)
  and the budget are modelled as reals; no property below depends on their values.
\<close>

datatype py_exception =
    JSONDecodeError string
  | TypeError string
  | KeyError string
  | AttributeError string
  | OSError string
  | OtherError string

text \<open>\<^verbatim>\<open>str(e)\<close>, as the f-string \<^verbatim>\<open>f"Error reading output: {e}"\<close> renders it.\<close>

fun exc_str :: "py_exception \<Rightarrow> string" where
  "exc_str (JSONDecodeError m) = m"
| "exc_str (TypeError m) = m"
| "exc_str (KeyError m) = m"
| "exc_str (AttributeError m) = m"
| "exc_str (OSError m) = m"
| "exc_str (OtherError m) = m"

text \<open>
  \<^verbatim>\<open>except (OSError, ProcessLookupError)\<close>: \<^verbatim>\<open>ProcessLookupError\<close>, \<^verbatim>\<open>PermissionError\<close>
  and \<^verbatim>\<open>FileNotFoundError\<close> are subclasses of \<^verbatim>\<open>OSError\<close>.
\<close>

fun is_OSError :: "py_exception \<Rightarrow> bool" where
  "is_OSError (OSError m) = True"
| "is_OSError e = False"

fun is_JSONDecodeError :: "py_exception \<Rightarrow> bool" where
  "is_JSONDecodeError (JSONDecodeError m) = True"
| "is_JSONDecodeError e = False"

text \<open>What \<^verbatim>\<open>json.loads\<close> returns. A \<open>JObj\<close> lists the items of the resulting dict.\<close>

datatype json =
    JNull
  | JBool bool
  | JInt int
  | JFloat real
  | JStr string
  | JArr "json list"
  | JObj "(string \<times> json) list"

fun type_name :: "json \<Rightarrow> string" where
  "type_name JNull = ''NoneType''"
| "type_name (JBool b) = ''bool''"
| "type_name (JInt i) = ''int''"
| "type_name (JFloat f) = ''float''"
| "type_name (JStr s) = ''str''"
| "type_name (JArr xs) = ''list''"
| "type_name (JObj kvs) = ''dict''"

definition quoted :: "string \<Rightarrow> string" where
  "quoted s = CHR 0x27 # s @ [CHR 0x27]"

subsection \<open>String operations\<close>

text \<open>\<^verbatim>\<open>sub in s\<close> for two strings.\<close>

fun is_infix :: "string \<Rightarrow> string \<Rightarrow> bool" where
  "is_infix sub [] = (sub = [])"
| "is_infix sub (c # cs) = (take (length sub) (c # cs) = sub \<or> is_infix sub cs)"

definition startswith :: "string \<Rightarrow> string \<Rightarrow> bool" where
  "startswith s p = (take (length p) s = p)"

text \<open>\<^verbatim>\<open>str.isspace\<close> on the code points below 256, and \<^verbatim>\<open>str.strip()\<close>.\<close>

definition py_isspace :: "char \<Rightarrow> bool" where
  "py_isspace c = ((of_char c :: nat) \<in> {9, 10, 11, 12, 13, 28, 29, 30, 31, 32, 133, 160})"

definition py_strip :: "string \<Rightarrow> string" where
  "py_strip s = rev (dropWhile py_isspace (rev (dropWhile py_isspace s)))"

text \<open>\<^verbatim>\<open>content.split('\n')\<close>: always at least one piece.\<close>

fun split_nl :: "string \<Rightarrow> string list" where
  "split_nl [] = [[]]"
| "split_nl (c # cs) =
     (if c = CHR 0x0A then [] # split_nl cs
      else (case split_nl cs of [] \<Rightarrow> [[c]] | l # ls \<Rightarrow> (c # l) # ls))"

text \<open>\<^verbatim>\<open>'\n'.join(ls)\<close>.\<close>

fun join_nl :: "string list \<Rightarrow> string" where
  "join_nl [] = []"
| "join_nl [l] = l"
| "join_nl (l # m # ls) = l @ CHR 0x0A # join_nl (m # ls)"

text \<open>\<^verbatim>\<open>xs[-n:]\<close> for a positive \<open>n\<close>.\<close>

definition last_n :: "nat \<Rightarrow> 'a list \<Rightarrow> 'a list" where
  "last_n n xs = drop (length xs - n) xs"

subsection \<open>The operations \<^verbatim>\<open>_extract_summary\<close> applies to the parsed line\<close>

text \<open>\<^verbatim>\<open>'result' in data\<close> (texts of CPython 3.11).\<close>

fun py_in :: "string \<Rightarrow> json \<Rightarrow> py_exception + bool" where
  "py_in k (JObj kvs) = Inr (k \<in> set (map fst kvs))"
| "py_in k (JArr xs) = Inr (JStr k \<in> set xs)"
| "py_in k (JStr s) = Inr (is_infix k s)"
| "py_in k v = Inl (TypeError (''argument of type '' @ quoted (type_name v) @ '' is not iterable''))"

text \<open>\<^verbatim>\<open>data['result']\<close>.\<close>

fun py_getitem :: "json \<Rightarrow> string \<Rightarrow> py_exception + json" where
  "py_getitem (JObj kvs) k =
     (case map_of kvs k of None \<Rightarrow> Inl (KeyError (quoted k)) | Some v \<Rightarrow> Inr v)"
| "py_getitem (JArr xs) k = Inl (TypeError ''list indices must be integers or slices, not str'')"
| "py_getitem (JStr s) k = Inl (TypeError (''string indices must be integers, not '' @ quoted ''str''))"
| "py_getitem v k = Inl (TypeError (quoted (type_name v) @ '' object is not subscriptable''))"

text \<open>\<^verbatim>\<open>len(result)\<close>.\<close>

fun py_len :: "json \<Rightarrow> py_exception + nat" where
  "py_len (JStr s) = Inr (length s)"
| "py_len (JArr xs) = Inr (length xs)"
| "py_len (JObj kvs) = Inr (length kvs)"
| "py_len v = Inl (TypeError (''object of type '' @ quoted (type_name v) @ '' has no len()''))"

text \<open>\<^verbatim>\<open>result[:300] + "..."\<close>.\<close>

fun slice300_dots :: "json \<Rightarrow> py_exception + json" where
  "slice300_dots (JStr s) = Inr (JStr (take 300 s @ ''...''))"
| "slice300_dots (JArr xs) =
     Inl (TypeError (''can only concatenate list (not '' @ [CHR 0x22] @ ''str'' @ [CHR 0x22] @ '') to list''))"
| "slice300_dots (JObj kvs) = Inl (TypeError (''unhashable type: '' @ quoted ''slice''))"
| "slice300_dots v = Inl (TypeError (quoted (type_name v) @ '' object is not subscriptable''))"

section \<open>The log summarizer: \<^verbatim>\<open>Runner._extract_summary\<close>\<close>

text \<open>
  What the file system answers for the log path: the file does not exist, the read raises
  (\<^verbatim>\<open>open\<close> or \<^verbatim>\<open>f.read()\<close>), or \<^verbatim>\<open>f.read()\<close> returns the content.
\<close>

datatype file_state = Missing | Unreadable py_exception | Content string

definition result_key :: string where
  "result_key = [CHR 0x22] @ ''result'' @ [CHR 0x22] @ '':''"

text \<open>
  The body of \<^verbatim>\<open>for line in reversed(lines)\<close>, on the lines in reversed order. \<open>None\<close>: the
  loop ran to its end without returning. \<open>Some (Inl e)\<close>: an exception left the loop.
  The parser \<^verbatim>\<open>json.loads\<close> is a parameter.
\<close>

fun scan_result :: "(string \<Rightarrow> py_exception + json) \<Rightarrow> string list \<Rightarrow> (py_exception + json) option" where
  "scan_result loads [] = None"
| "scan_result loads (line # rest) =
     (if is_infix result_key line then
        (case loads line of
           Inl e \<Rightarrow> if is_JSONDecodeError e then scan_result loads rest else Some (Inl e)
         | Inr data \<Rightarrow>
            (case py_in ''result'' data of
               Inl e \<Rightarrow> Some (Inl e)
             | Inr False \<Rightarrow> scan_result loads rest
             | Inr True \<Rightarrow>
                (case py_getitem data ''result'' of
                   Inl e \<Rightarrow> Some (Inl e)
                 | Inr result \<Rightarrow>
                    (case py_len result of
                       Inl e \<Rightarrow> Some (Inl e)
                     | Inr n \<Rightarrow> if n > 300 then Some (slice300_dots result) else Some (Inr result)))))
      else scan_result loads rest)"

definition meaningful :: "string \<Rightarrow> bool" where
  "meaningful line = (py_strip line \<noteq> [] \<and> \<not> startswith line ''2026-'')"

definition fallback_summary :: "string list \<Rightarrow> string" where
  "fallback_summary lines = take 200 (join_nl (last_n 5 (filter meaningful (last_n 20 lines))))"

text \<open>The \<^verbatim>\<open>try\<close> block of \<^verbatim>\<open>_extract_summary\<close>.\<close>

definition extract_summary_body :: "(string \<Rightarrow> py_exception + json) \<Rightarrow> file_state \<Rightarrow> py_exception + json" where
  "extract_summary_body loads f =
     (case f of
        Missing \<Rightarrow> Inr (JStr ''No output captured'')
      | Unreadable e \<Rightarrow> Inl e
      | Content content \<Rightarrow>
          (let lines = split_nl content in
           case scan_result loads (rev lines) of
             Some r \<Rightarrow> r
           | None \<Rightarrow> Inr (JStr (fallback_summary lines))))"

text \<open>The whole function, with its \<^verbatim>\<open>except Exception as e\<close>.\<close>

definition extract_summary :: "(string \<Rightarrow> py_exception + json) \<Rightarrow> file_state \<Rightarrow> py_exception + json" where
  "extract_summary loads f =
     (case extract_summary_body loads f of
        Inl e \<Rightarrow> Inr (JStr (''Error reading output: '' @ exc_str e))
      | Inr v \<Rightarrow> Inr v)"

section \<open>The notifier: \<^verbatim>\<open>Notifier\<close>\<close>

text \<open>\<^verbatim>\<open>str(n)\<close> for an integer, as the f-strings of \<^verbatim>\<open>notify_completion\<close> render it.\<close>

fun str_nat :: "nat \<Rightarrow> string" where
  "str_nat n = (if n < 10 then [char_of (48 + n)] else str_nat (n div 10) @ [char_of (48 + n mod 10)])"

declare str_nat.simps [simp del]

definition str_int :: "int \<Rightarrow> string" where
  "str_int i = (if i < 0 then CHR ''-'' # str_nat (nat (- i)) else str_nat (nat i))"

definition duration_str :: "int \<Rightarrow> string" where
  "duration_str duration =
     (if duration < 60 then str_int duration @ ''s''
      else if duration < 3600 then
        str_int (duration div 60) @ ''m '' @ str_int (duration mod 60) @ ''s''
      else str_int (duration div 3600) @ ''h '' @ str_int ((duration mod 3600) div 60) @ ''m'')"

text \<open>
  Lines 59 to 61 of \<^verbatim>\<open>_format_completion_message\<close>: the summary as it is embedded in
  the message.
\<close>

definition clean_summary :: "string \<Rightarrow> string" where
  "clean_summary summary =
     (let clean = py_strip summary
      in if length clean > 500 then take 500 clean @ ''...'' else clean)"

text \<open>The UTF-8 bytes of the emoji that opens the message.\<close>

definition target_mark :: string where
  "target_mark = [CHR 0xF0, CHR 0x9F, CHR 0x8E, CHR 0xAF]"

definition code_fence :: string where
  "code_fence = [CHR 0x60, CHR 0x60, CHR 0x60]"

definition looks_like_output :: "string \<Rightarrow> bool" where
  "looks_like_output clean = list_ex (\<lambda>ch. ch \<in> set clean) [CHR ''{'', CHR ''['', CHR '':'', CHR 0x0A]"

definition message_of :: "string \<Rightarrow> string \<Rightarrow> string \<Rightarrow> string" where
  "message_of worker_name clean dstr =
     (let message = target_mark @ '' Worker **'' @ worker_name @ ''** completed ('' @ dstr @ '')''
      in if clean \<noteq> [] \<and> clean \<noteq> ''No output captured'' then
           (if looks_like_output clean
            then message @ [CHR 0x0A] @ code_fence @ [CHR 0x0A] @ clean @ [CHR 0x0A] @ code_fence
            else message @ [CHR 0x0A, CHR 0x0A] @ clean)
         else message)"

text \<open>
  \<^verbatim>\<open>_format_completion_message\<close>. The summary is whatever \<^verbatim>\<open>_extract_summary\<close> returned;
  \<^verbatim>\<open>summary.strip()\<close> raises on a value that is not a \<^verbatim>\<open>str\<close>.
\<close>

definition format_completion_message :: "string \<Rightarrow> json \<Rightarrow> string \<Rightarrow> py_exception + string" where
  "format_completion_message worker_name summary dstr =
     (case summary of
        JStr s \<Rightarrow> Inr (message_of worker_name (clean_summary s) dstr)
      | v \<Rightarrow> Inl (AttributeError (quoted (type_name v) @ '' object has no attribute '' @ quoted ''strip'')))"

text \<open>
  \<^verbatim>\<open>_send_openclaw_message\<close>: the external command is a parameter; every exception is
  caught there and turned into \<^verbatim>\<open>False\<close>.
\<close>

definition send_openclaw_message :: "(string list \<Rightarrow> py_exception + int) \<Rightarrow> string \<Rightarrow> string \<Rightarrow> bool" where
  "send_openclaw_message openclaw_cmd target message =
     (case openclaw_cmd [''openclaw'', ''agent'', ''--agent'', target, ''-m'', message] of
        Inl e \<Rightarrow> False
      | Inr returncode \<Rightarrow> returncode = 0)"

section \<open>The registry and the runner: \<^verbatim>\<open>Runner\<close>\<close>

text \<open>A worker dict. \<^verbatim>\<open>end_time\<close> is a key that may be absent.\<close>

record worker =
  pid :: "int option"
  session_id :: string
  model :: string
  budget :: real
  notify_target :: string
  prompt :: string
  start_time :: real
  status :: string
  log_file :: string
  background :: bool
  end_time :: "real option"

text \<open>
  \<^verbatim>\<open>self.workers\<close> is a Python dict: an association list in insertion order, with distinct
  keys. Beside it the state records what the runner did to the outside: every
  \<^verbatim>\<open>json.dump\<close> of the registry that \<^verbatim>\<open>save_workers\<close> attempts (the write may fail; the
  exception is swallowed there and nothing depends on it), every process group that was
  sent \<^verbatim>\<open>SIGTERM\<close>, every command line that was launched, and every notification handed
  to the sender (worker name, target, message). Printed lines are not modelled.

  In this section each operation is modelled as a whole. The sweep
  \<^verbatim>\<open>_check_worker_statuses\<close> runs on the monitor thread of \<^verbatim>\<open>_start_status_monitor\<close>;
  how its lines interleave with \<^verbatim>\<open>kill_worker\<close> on the calling thread is modelled in
  the section on the two threads.
\<close>

record runner =
  workers :: "(string \<times> worker) list"
  writes :: "(string \<times> worker) list list"
  signals :: "int list"
  launched :: "string list list"
  notified :: "(string \<times> string \<times> string) list"

text \<open>
  What the outside answers during one operation: \<^verbatim>\<open>set_env_wizard()\<close>, \<^verbatim>\<open>uuid.uuid4()\<close>,
  \<^verbatim>\<open>time.time()\<close> (one reading per operation), the log path of a name
  (\<^verbatim>\<open>self.logs_dir / f"{name}.log"\<close>), \<^verbatim>\<open>str(budget)\<close>, \<^verbatim>\<open>subprocess.Popen\<close> (the pid, or
  the exception), \<^verbatim>\<open>subprocess.run\<close> (the return code, or the exception), \<^verbatim>\<open>os.killpg\<close>
  with \<^verbatim>\<open>SIGTERM\<close> and \<^verbatim>\<open>os.kill(pid, 0)\<close> (the exception raised, if any), the log files,
  \<^verbatim>\<open>json.loads\<close>, and the notification command.
\<close>

record env =
  authenticated :: bool
  uuid4 :: string
  now :: real
  log_path :: "string \<Rightarrow> string"
  str_float :: "real \<Rightarrow> string"
  popen :: "string list \<Rightarrow> py_exception + int"
  subprocess_run :: "string list \<Rightarrow> py_exception + int"
  killpg :: "int \<Rightarrow> py_exception option"
  kill0 :: "int \<Rightarrow> py_exception option"
  read_log :: "string \<Rightarrow> file_state"
  json_loads :: "string \<Rightarrow> py_exception + json"
  openclaw :: "string list \<Rightarrow> py_exception + int"

definition save_workers :: "runner \<Rightarrow> runner" where
  "save_workers r = r\<lparr>writes := writes r @ [workers r]\<rparr>"

text \<open>\<^verbatim>\<open>Notifier.notify_completion\<close>, called from \<^verbatim>\<open>_handle_completion\<close>.\<close>

definition notify_completion :: "env \<Rightarrow> string \<Rightarrow> json \<Rightarrow> int \<Rightarrow> string \<Rightarrow> runner \<Rightarrow> (py_exception + bool) \<times> runner" where
  "notify_completion e worker_name summary duration target r =
     (case format_completion_message worker_name summary (duration_str duration) of
        Inl ex \<Rightarrow> (Inl ex, r)
      | Inr message \<Rightarrow>
          (Inr (send_openclaw_message (openclaw e) target message),
           r\<lparr>notified := notified r @ [(worker_name, target, message)]\<rparr>))"

text \<open>
  \<^verbatim>\<open>int(x)\<close> on a float: truncation towards zero. The timestamps are reals here and
  IEEE doubles in the code, so where the subtraction of two doubles rounds, the duration
  and with it the text of the message can differ; no statement below depends on either.
\<close>

definition py_int :: "real \<Rightarrow> int" where
  "py_int x = (if x \<ge> 0 then \<lfloor>x\<rfloor> else \<lceil>x\<rceil>)"

text \<open>\<^verbatim>\<open>_handle_completion\<close>. The result is the exception that leaves it, if any.\<close>

definition handle_completion :: "env \<Rightarrow> string \<Rightarrow> runner \<Rightarrow> py_exception option \<times> runner" where
  "handle_completion e name r =
     (case map_of (workers r) name of
        None \<Rightarrow> (None, r)
      | Some w \<Rightarrow>
          (let duration = py_int ((case end_time w of None \<Rightarrow> now e | Some t \<Rightarrow> t) - start_time w)
           in case extract_summary (json_loads e) (read_log e (log_file w)) of
                Inl ex \<Rightarrow> (Some ex, r)
              | Inr summary \<Rightarrow>
                  (case notify_completion e name summary duration (notify_target w) r of
                     (Inl ex, r') \<Rightarrow> (Some ex, r')
                   | (Inr sent, r') \<Rightarrow> (None, r'))))"

text \<open>\<^verbatim>\<open>run\<close>. Everything after the two early returns is inside \<^verbatim>\<open>try ... except Exception\<close>.\<close>

definition claude_cmd :: "env \<Rightarrow> string \<Rightarrow> string \<Rightarrow> real \<Rightarrow> string \<Rightarrow> string list" where
  "claude_cmd e name model_name budget_usd prompt_text =
     [''claude'', ''--print'', ''--session-id'', uuid4 e, ''--model'', model_name,
      ''--max-budget-usd'', str_float e budget_usd, ''--debug-file'', log_path e name,
      ''--output-format'', ''json'', prompt_text]"

definition new_worker :: "env \<Rightarrow> string \<Rightarrow> string \<Rightarrow> string \<Rightarrow> real \<Rightarrow> string \<Rightarrow> bool \<Rightarrow> int option \<Rightarrow> worker" where
  "new_worker e name prompt_text model_name budget_usd target bg p =
     \<lparr>pid = p, session_id = uuid4 e, model = model_name, budget = budget_usd,
      notify_target = target, prompt = prompt_text, start_time = now e,
      status = (if bg then ''running'' else ''completed''),
      log_file = log_path e name, background = bg, end_time = None\<rparr>"

definition store_worker :: "string \<Rightarrow> worker \<Rightarrow> runner \<Rightarrow> runner" where
  "store_worker name w r = save_workers (r\<lparr>workers := AList.update name w (workers r)\<rparr>)"

definition run :: "env \<Rightarrow> string \<Rightarrow> string \<Rightarrow> string \<Rightarrow> real \<Rightarrow> string \<Rightarrow> bool \<Rightarrow> runner \<Rightarrow> bool \<times> runner" where
  "run e name prompt_text model_name budget_usd target bg r =
     (if name \<in> set (map fst (workers r)) then (False, r)
      else if \<not> authenticated e then (False, r)
      else
        (let cmd = claude_cmd e name model_name budget_usd prompt_text in
         if bg then
           (case popen e (''nohup'' # cmd) of
              Inl ex \<Rightarrow> (False, r)
            | Inr p \<Rightarrow>
                (True,
                 store_worker name (new_worker e name prompt_text model_name budget_usd target bg (Some p))
                   (r\<lparr>launched := launched r @ [''nohup'' # cmd]\<rparr>)))
         else
           (case subprocess_run e cmd of
              Inl ex \<Rightarrow> (False, r)
            | Inr returncode \<Rightarrow>
                (let r1 = r\<lparr>launched := launched r @ [cmd]\<rparr> in
                 if returncode \<noteq> 0 then (False, r1)
                 else
                   (case handle_completion e name
                           (store_worker name (new_worker e name prompt_text model_name budget_usd target bg None) r1) of
                      (Some ex, r2) \<Rightarrow> (False, r2)
                    | (None, r2) \<Rightarrow> (True, r2))))))"

text \<open>\<^verbatim>\<open>kill_worker\<close>. An exception of \<^verbatim>\<open>os.killpg\<close> that is not an \<^verbatim>\<open>OSError\<close> leaves the call.\<close>

definition kill_worker :: "env \<Rightarrow> string \<Rightarrow> runner \<Rightarrow> (py_exception + bool) \<times> runner" where
  "kill_worker e name r =
     (case map_of (workers r) name of
        None \<Rightarrow> (Inr False, r)
      | Some w \<Rightarrow>
          (case pid w of
             None \<Rightarrow> (Inr False, r)
           | Some p \<Rightarrow>
               if status w \<noteq> ''running'' \<or> p = 0 then (Inr False, r)
               else
                 (case killpg e p of
                    None \<Rightarrow>
                      (Inr True,
                       save_workers (r\<lparr>workers := AList.update name (w\<lparr>status := ''killed'', end_time := Some (now e)\<rparr>) (workers r),
                                       signals := signals r @ [p]\<rparr>))
                  | Some ex \<Rightarrow>
                      if is_OSError ex then
                        (Inr True,
                         save_workers (r\<lparr>workers := AList.update name (w\<lparr>status := ''dead'', end_time := Some (now e)\<rparr>) (workers r)\<rparr>))
                      else (Inl ex, r))))"

text \<open>\<^verbatim>\<open>cleanup_completed\<close>.\<close>

definition removable :: "worker \<Rightarrow> bool" where
  "removable w = (status w \<in> set [''completed'', ''killed'', ''dead''])"

definition cleanup_completed :: "runner \<Rightarrow> nat \<times> runner" where
  "cleanup_completed r =
     (let to_remove = map fst (filter (\<lambda>(name, w). removable w) (workers r));
          r1 = r\<lparr>workers := fold AList.delete to_remove (workers r)\<rparr>
      in (length to_remove, if to_remove \<noteq> [] then save_workers r1 else r1))"

text \<open>
  \<^verbatim>\<open>_check_worker_statuses\<close>: the loop over the snapshot \<^verbatim>\<open>list(self.workers.items())\<close>,
  then the save. The snapshot holds the dicts of the registry themselves, and within one
  sweep a dict is written only at its own turn, so the loop reads the snapshot's value.
  The first component is the exception that leaves the sweep, if any.
\<close>

fun check_loop :: "env \<Rightarrow> (string \<times> worker) list \<Rightarrow> bool \<Rightarrow> runner \<Rightarrow> py_exception option \<times> bool \<times> runner" where
  "check_loop e [] updated r = (None, updated, r)"
| "check_loop e ((name, w) # rest) updated r =
     (case pid w of
        None \<Rightarrow> check_loop e rest updated r
      | Some p \<Rightarrow>
          if status w = ''running'' \<and> p \<noteq> 0 then
            (case kill0 e p of
               None \<Rightarrow> check_loop e rest updated r
             | Some ex \<Rightarrow>
                 if is_OSError ex then
                   (case handle_completion e name
                           (r\<lparr>workers := AList.update name (w\<lparr>status := ''completed'', end_time := Some (now e)\<rparr>) (workers r)\<rparr>) of
                      (Some ex', r') \<Rightarrow> (Some ex', True, r')
                    | (None, r') \<Rightarrow> check_loop e rest True r')
                 else (Some ex, updated, r))
          else check_loop e rest updated r)"

definition check_worker_statuses :: "env \<Rightarrow> runner \<Rightarrow> py_exception option \<times> runner" where
  "check_worker_statuses e r =
     (case check_loop e (workers r) False r of
        (Some ex, updated, r') \<Rightarrow> (Some ex, r')
      | (None, updated, r') \<Rightarrow> (None, if updated then save_workers r' else r'))"

text \<open>One operation of the runner with what the outside answered, and its effect on the state.\<close>

datatype op =
    Run env string string string real string bool
  | Kill env string
  | Check env
  | Cleanup

fun step :: "op \<Rightarrow> runner \<Rightarrow> runner" where
  "step (Run e name prompt_text model_name budget_usd target bg) r =
     snd (run e name prompt_text model_name budget_usd target bg r)"
| "step (Kill e name) r = snd (kill_worker e name r)"
| "step (Check e) r = snd (check_worker_statuses e r)"
| "step Cleanup r = snd (cleanup_completed r)"

section \<open>The two threads, block by block\<close>

text \<open>
  \<^verbatim>\<open>__init__\<close> starts the sweep on a daemon thread (\<^verbatim>\<open>_start_status_monitor\<close>), and
  \<^verbatim>\<open>runner.py\<close> takes no lock. Here \<^verbatim>\<open>kill_worker\<close> and \<^verbatim>\<open>_check_worker_statuses\<close> are cut
  into the blocks of lines between which the other thread may run. CPython can switch
  threads between any two lines, so every schedule of these blocks is an execution of the
  code.

  The snapshot of the sweep and the registry hold the same dicts, and the two threads only
  write fields of a record: they add and remove no key. So a write is a change of the
  record under its name, and a guard reads the record as it is at that moment.
\<close>

definition write_status :: "string \<Rightarrow> string \<Rightarrow> real \<Rightarrow> (string \<times> worker) list \<Rightarrow> (string \<times> worker) list" where
  "write_status name st t al = AList.map_entry name (\<lambda>w. w\<lparr>status := st, end_time := Some t\<rparr>) al"

text \<open>
  Where \<^verbatim>\<open>kill_worker\<close> stands: before line 155 (the step runs lines 155 to 162); past
  the guard, before \<^verbatim>\<open>os.killpg\<close> of line 165, with the pid (which no step writes); before
  lines 166 to 170; before lines 172 to 176; returned or raised.
\<close>

datatype kill_pc =
    K_guard
  | K_signal int
  | K_killed
  | K_dead
  | K_done "py_exception + bool"

fun kill_step :: "env \<Rightarrow> string \<Rightarrow> kill_pc \<Rightarrow> runner \<Rightarrow> kill_pc \<times> runner" where
  "kill_step e name K_guard r =
     (case map_of (workers r) name of
        None \<Rightarrow> (K_done (Inr False), r)
      | Some w \<Rightarrow>
          (case pid w of
             None \<Rightarrow> (K_done (Inr False), r)
           | Some p \<Rightarrow>
               if status w \<noteq> ''running'' \<or> p = 0 then (K_done (Inr False), r)
               else (K_signal p, r)))"
| "kill_step e name (K_signal p) r =
     (case killpg e p of
        None \<Rightarrow> (K_killed, r\<lparr>signals := signals r @ [p]\<rparr>)
      | Some ex \<Rightarrow> if is_OSError ex then (K_dead, r) else (K_done (Inl ex), r))"
| "kill_step e name K_killed r =
     (K_done (Inr True), save_workers (r\<lparr>workers := write_status name ''killed'' (now e) (workers r)\<rparr>))"
| "kill_step e name K_dead r =
     (K_done (Inr True), save_workers (r\<lparr>workers := write_status name ''dead'' (now e) (workers r)\<rparr>))"
| "kill_step e name (K_done x) r = (K_done x, r)"

text \<open>
  Where the sweep stands: at the head of the loop with the names of the snapshot still to
  visit and \<^verbatim>\<open>updated\<close> (the step is the guard of line 221, or lines 231 and 232 when no
  name is left); before \<^verbatim>\<open>os.kill(pid, 0)\<close> of line 223; before lines 226 to 228; before
  \<^verbatim>\<open>_handle_completion\<close> of line 229; returned or raised. Every name of the snapshot
  has a record, since no key is removed; the guard passes over a name that has none.
\<close>

datatype sweep_pc =
    S_loop "string list" bool
  | S_probe string int "string list" bool
  | S_mark string "string list"
  | S_notify string "string list"
  | S_done "py_exception option"

fun sweep_step :: "env \<Rightarrow> sweep_pc \<Rightarrow> runner \<Rightarrow> sweep_pc \<times> runner" where
  "sweep_step e (S_loop [] updated) r = (S_done None, if updated then save_workers r else r)"
| "sweep_step e (S_loop (name # rest) updated) r =
     (case map_of (workers r) name of
        None \<Rightarrow> (S_loop rest updated, r)
      | Some w \<Rightarrow>
          (case pid w of
             None \<Rightarrow> (S_loop rest updated, r)
           | Some p \<Rightarrow>
               if status w = ''running'' \<and> p \<noteq> 0 then (S_probe name p rest updated, r)
               else (S_loop rest updated, r)))"
| "sweep_step e (S_probe name p rest updated) r =
     (case kill0 e p of
        None \<Rightarrow> (S_loop rest updated, r)
      | Some ex \<Rightarrow> if is_OSError ex then (S_mark name rest, r) else (S_done (Some ex), r))"
| "sweep_step e (S_mark name rest) r =
     (S_notify name rest, r\<lparr>workers := write_status name ''completed'' (now e) (workers r)\<rparr>)"
| "sweep_step e (S_notify name rest) r =
     (case handle_completion e name r of
        (Some ex, r') \<Rightarrow> (S_done (Some ex), r')
      | (None, r') \<Rightarrow> (S_loop rest True, r'))"
| "sweep_step e (S_done x) r = (S_done x, r)"

text \<open>
  A schedule says which thread runs its next block. The kill uses the answers of the
  outside \<open>eK\<close>, the sweep those of \<open>eS\<close>.
\<close>

datatype thread = Kill_thread | Sweep_thread

fun thread_step :: "env \<Rightarrow> env \<Rightarrow> string \<Rightarrow> thread \<Rightarrow> kill_pc \<times> sweep_pc \<times> runner \<Rightarrow> kill_pc \<times> sweep_pc \<times> runner" where
  "thread_step eK eS name Kill_thread (k, s, r) = (case kill_step eK name k r of (k', r') \<Rightarrow> (k', s, r'))"
| "thread_step eK eS name Sweep_thread (k, s, r) = (case sweep_step eS s r of (s', r') \<Rightarrow> (k, s', r'))"

definition interleave :: "env \<Rightarrow> env \<Rightarrow> string \<Rightarrow> thread list \<Rightarrow> kill_pc \<times> sweep_pc \<times> runner \<Rightarrow> kill_pc \<times> sweep_pc \<times> runner" where
  "interleave eK eS name schedule c = fold (thread_step eK eS name) schedule c"

text \<open>
  The schedule of the race: the sweep passes its guard and probes the process (lines 221,
  223), the kill passes its guard (lines 155 to 162), the sweep marks the record and
  notifies (lines 226 to 229), the kill signals and writes (lines 165, 172 to 176).
\<close>

definition race_schedule :: "thread list" where
  "race_schedule = [Sweep_thread, Sweep_thread, Kill_thread, Sweep_thread, Sweep_thread, Kill_thread, Kill_thread]"

section \<open>Concrete inputs\<close>

text \<open>A parser that rejects every line, and an outside in which every process is gone.\<close>

definition loads_fail :: "string \<Rightarrow> py_exception + json" where
  "loads_fail line = Inl (JSONDecodeError ''Expecting value: line 1 column 1 (char 0)'')"

definition no_such_process :: py_exception where
  "no_such_process = OSError ''[Errno 3] No such process''"

definition tmp_log_path :: "string \<Rightarrow> string" where
  "tmp_log_path name = ''/tmp/blaude-logs/'' @ name @ ''.log''"

definition env0 :: env where
  "env0 = \<lparr>authenticated = True, uuid4 = ''u-1'', now = 100,
           log_path = tmp_log_path,
           str_float = (\<lambda>b. ''2.0''),
           popen = (\<lambda>cmd. Inr 4242),
           subprocess_run = (\<lambda>cmd. Inr 0),
           killpg = (\<lambda>p. Some no_such_process),
           kill0 = (\<lambda>p. Some no_such_process),
           read_log = (\<lambda>path. Missing),
           json_loads = loads_fail,
           openclaw = (\<lambda>cmd. Inr 0)\<rparr>"

definition worker0 :: "string \<Rightarrow> int option \<Rightarrow> worker" where
  "worker0 st p =
     \<lparr>pid = p, session_id = ''u-0'', model = ''haiku'', budget = 2,
      notify_target = ''main'', prompt = ''hello'', start_time = 10, status = st,
      log_file = ''/tmp/blaude-logs/t1.log'', background = True, end_time = None\<rparr>"

definition runner0 :: runner where
  "runner0 = \<lparr>workers = [], writes = [], signals = [], launched = [], notified = []\<rparr>"

text \<open>A registry with one running worker, and one with a finished and a running worker.\<close>

definition runner1 :: runner where
  "runner1 = runner0\<lparr>workers := [(''t1'', worker0 ''running'' (Some 4242))]\<rparr>"

definition runner2 :: runner where
  "runner2 = runner0\<lparr>workers := [(''t1'', worker0 ''completed'' (Some 4242)),
                                   (''t3'', worker0 ''running'' (Some 4343))]\<rparr>"



definition done_line :: string where
  "done_line = ''{'' @ [CHR 0x22] @ ''result'' @ [CHR 0x22] @ '':'' @ [CHR 0x22] @ ''Done'' @ [CHR 0x22] @ ''}''"

definition spaced_line :: string where
  "spaced_line = ''{'' @ [CHR 0x22] @ ''result'' @ [CHR 0x22] @ '' : '' @ [CHR 0x22] @ ''Done'' @ [CHR 0x22] @ ''}''"

definition loads_demo :: "string \<Rightarrow> py_exception + json" where
  "loads_demo line =
     (if line = done_line \<or> line = spaced_line then Inr (JObj [(''result'', JStr ''Done'')])
      else Inl (JSONDecodeError ''Expecting value: line 1 column 1 (char 0)''))"

definition demo_log1 :: string where
  "demo_log1 = ''2026-01-01 start'' @ [CHR 0x0A] @ done_line @ [CHR 0x0A] @ ''bye'' @ [CHR 0x0A]"

definition demo_log2 :: string where
  "demo_log2 = ''2026-01-01 start'' @ [CHR 0x0A] @ ''  '' @ [CHR 0x0A] @ ''bye'' @ [CHR 0x0A] @ ''now''"

section \<open>Predicates of the statements\<close>

text \<open>
  A line the loop of \<^verbatim>\<open>_extract_summary\<close> passes over: it does not contain the text
  \<^verbatim>\<open>"result":\<close>, or \<^verbatim>\<open>json.loads\<close> raises \<^verbatim>\<open>JSONDecodeError\<close> on it, or
  \<^verbatim>\<open>'result' in data\<close> is false for the parsed value.
\<close>

definition skipped :: "(string \<Rightarrow> py_exception + json) \<Rightarrow> string \<Rightarrow> bool" where
  "skipped loads line =
     (if is_infix result_key line then
        (case loads line of
           Inl e \<Rightarrow> is_JSONDecodeError e
         | Inr data \<Rightarrow> py_in ''result'' data = Inr False)
      else True)"


text \<open>
  The terminal statuses of the specification, and its invariant on a record: \<^verbatim>\<open>end_time\<close>
  is present exactly when the status is terminal.
\<close>

definition terminal :: "string \<Rightarrow> bool" where
  "terminal st = (st \<in> set [''completed'', ''killed'', ''dead'', ''failed''])"

definition end_time_iff_terminal :: "worker \<Rightarrow> bool" where
  "end_time_iff_terminal w = ((end_time w \<noteq> None) = terminal (status w))"

text \<open>
  The invariant the code keeps: the one above, or the record is as a foreground \<^verbatim>\<open>run\<close>
  stores it (\<^verbatim>\<open>completed\<close>, not in the background, no \<^verbatim>\<open>end_time\<close>).
\<close>

definition end_time_ok :: "worker \<Rightarrow> bool" where
  "end_time_ok w =
     (end_time_iff_terminal w \<or> (status w = ''completed'' \<and> end_time w = None \<and> \<not> background w))"

text \<open>
  The shapes of the records the runner writes: \<^verbatim>\<open>run\<close> stores a record without
  \<^verbatim>\<open>end_time\<close>, \<^verbatim>\<open>running\<close> in the background and \<^verbatim>\<open>completed\<close> in the foreground;
  \<^verbatim>\<open>kill_worker\<close> and the sweep set \<^verbatim>\<open>end_time\<close> with the new status.
\<close>

definition written :: "worker \<Rightarrow> bool" where
  "written w =
     (if end_time w = None
      then (status w = ''running'' \<and> background w) \<or> (status w = ''completed'' \<and> \<not> background w)
      else status w \<in> set [''completed'', ''killed'', ''dead''])"

text \<open>The notifications about one worker.\<close>

definition notified_for :: "string \<Rightarrow> runner \<Rightarrow> (string \<times> string \<times> string) list" where
  "notified_for name r = filter (\<lambda>(n, target, message). n = name) (notified r)"

section \<open>Spawn, kill and cleanup\<close>

text \<open>
  C2. A second \<^verbatim>\<open>run\<close> for a name that is a key of the registry, whatever the status of its
  record, returns \<^verbatim>\<open>False\<close> and leaves the whole state as it was: the registry, the
  writes of the registry file, the launched commands, the signals and the notifications.
\<close>

theorem run_duplicate_unchanged:
  "name \<in> set (map fst (workers r)) \<Longrightarrow>
   run e name prompt_text model_name budget_usd target bg r = (False, r)"
  by (simp add: run_def)

theorem run_duplicate_unchanged_witness:
  "''t1'' \<in> set (map fst (workers runner1)) \<and>
   run env0 ''t1'' ''again'' ''haiku'' 2 ''main'' True runner1 = (False, runner1)"
proof -
  have h: "''t1'' \<in> set (map fst (workers runner1))" by (simp add: runner1_def)
  from run_duplicate_unchanged [OF h] h show ?thesis by simp
qed

text \<open>
  C4. \<^verbatim>\<open>kill_worker\<close> on a name that is absent from the registry, or whose record has a
  status other than \<^verbatim>\<open>running\<close>, returns \<^verbatim>\<open>False\<close> and leaves the whole state as it
  was: no signal, no change of a record, no write of the registry file.
\<close>

theorem kill_not_running_no_effect:
  "map_of (workers r) name = None \<or>
     (\<exists>w. map_of (workers r) name = Some w \<and> status w \<noteq> ''running'') \<Longrightarrow>
   kill_worker e name r = (Inr False, r)"
  by (auto simp: kill_worker_def split: option.splits)

theorem kill_not_running_no_effect_witness:
  "map_of (workers runner2) ''t1'' = Some (worker0 ''completed'' (Some 4242)) \<and>
   status (worker0 ''completed'' (Some 4242)) \<noteq> ''running'' \<and>
   kill_worker env0 ''t1'' runner2 = (Inr False, runner2) \<and>
   map_of (workers runner2) ''t9'' = None \<and>
   kill_worker env0 ''t9'' runner2 = (Inr False, runner2)"
proof -
  have a: "map_of (workers runner2) ''t1'' = Some (worker0 ''completed'' (Some 4242))"
    by (simp add: runner2_def runner0_def)
  have b: "status (worker0 ''completed'' (Some 4242)) \<noteq> ''running''"
    by (simp add: worker0_def)
  have c: "map_of (workers runner2) ''t9'' = None"
    by (simp add: runner2_def runner0_def)
  from a b have "map_of (workers runner2) ''t1'' = None \<or>
      (\<exists>w. map_of (workers runner2) ''t1'' = Some w \<and> status w \<noteq> ''running'')"
    by blast
  from kill_not_running_no_effect [OF this]
  have d: "kill_worker env0 ''t1'' runner2 = (Inr False, runner2)" .
  from c have "map_of (workers runner2) ''t9'' = None \<or>
      (\<exists>w. map_of (workers runner2) ''t9'' = Some w \<and> status w \<noteq> ''running'')"
    by blast
  from kill_not_running_no_effect [OF this]
  have e: "kill_worker env0 ''t9'' runner2 = (Inr False, runner2)" .
  from a b c d e show ?thesis by blast
qed

text \<open>
  C5. A record is \<^verbatim>\<open>running\<close> with a pid, and \<^verbatim>\<open>os.killpg\<close> on that pid raises an
  \<^verbatim>\<open>OSError\<close> (\<^verbatim>\<open>ProcessLookupError\<close> is one): \<^verbatim>\<open>kill_worker\<close> returns \<^verbatim>\<open>True\<close>, the record
  becomes \<^verbatim>\<open>dead\<close> with \<^verbatim>\<open>end_time\<close> set to the clock reading, the registry so updated is
  written to the file, and no signal is recorded as sent.
\<close>

theorem kill_already_gone:
  assumes "map_of (workers r) name = Some w" "status w = ''running''"
    and "pid w = Some p" "p \<noteq> 0"
    and "killpg e p = Some ex" "is_OSError ex"
  shows "fst (kill_worker e name r) = Inr True \<and>
     workers (snd (kill_worker e name r)) =
        AList.update name (w\<lparr>status := ''dead'', end_time := Some (now e)\<rparr>) (workers r) \<and>
     map_of (workers (snd (kill_worker e name r))) name =
        Some (w\<lparr>status := ''dead'', end_time := Some (now e)\<rparr>) \<and>
     writes (snd (kill_worker e name r)) = writes r @ [workers (snd (kill_worker e name r))] \<and>
     signals (snd (kill_worker e name r)) = signals r"
  using assms by (simp add: kill_worker_def save_workers_def update_Some_unfold)

theorem kill_already_gone_witness:
  "map_of (workers runner1) ''t1'' = Some (worker0 ''running'' (Some 4242)) \<and>
   killpg env0 4242 = Some no_such_process \<and> is_OSError no_such_process \<and>
   fst (kill_worker env0 ''t1'' runner1) = Inr True \<and>
   map_of (workers (snd (kill_worker env0 ''t1'' runner1))) ''t1'' =
      Some ((worker0 ''running'' (Some 4242))\<lparr>status := ''dead'', end_time := Some 100\<rparr>) \<and>
   writes (snd (kill_worker env0 ''t1'' runner1)) = [workers (snd (kill_worker env0 ''t1'' runner1))]"
proof -
  have a: "map_of (workers runner1) ''t1'' = Some (worker0 ''running'' (Some 4242))"
    by (simp add: runner1_def runner0_def)
  have b: "status (worker0 ''running'' (Some 4242)) = ''running''"
    "pid (worker0 ''running'' (Some 4242)) = Some 4242"
    by (simp_all add: worker0_def)
  have c: "killpg env0 4242 = Some no_such_process" "is_OSError no_such_process" "(4242::int) \<noteq> 0"
    by (simp_all add: env0_def no_such_process_def)
  have d: "now env0 = 100" "writes runner1 = []"
    by (simp_all add: env0_def runner1_def runner0_def)
  from kill_already_gone [OF a b c(3) c(1) c(2)] a c d show ?thesis
    by (simp add: AList.update_conv')
qed

text \<open>Deleting a list of keys one by one is one filter on the keys.\<close>

lemma fold_delete_filter:
  "fold AList.delete ks al = filter (\<lambda>(k, v). k \<notin> set ks) al"
  by (induction ks arbitrary: al) (auto simp: AList.delete_eq intro: filter_cong)

text \<open>In a dict, the keys of the entries that satisfy \<open>P\<close> select exactly those entries.\<close>

lemma filter_keys_distinct:
  assumes "distinct (map fst al)"
  shows "filter (\<lambda>(k, v). k \<notin> set (map fst (filter (\<lambda>(n, w). P w) al))) al =
         filter (\<lambda>(n, w). \<not> P w) al"
proof (rule filter_cong [OF refl])
  fix x assume x: "x \<in> set al"
  obtain k v where kv: "x = (k, v)" by (cases x)
  have "k \<in> set (map fst (filter (\<lambda>(n, w). P w) al)) \<longleftrightarrow> P v"
  proof
    assume "k \<in> set (map fst (filter (\<lambda>(n, w). P w) al))"
    then obtain v' where v': "(k, v') \<in> set al" "P v'" by auto
    from assms x kv v'(1) have "v' = v" by (meson eq_key_imp_eq_value)
    with v' show "P v" by simp
  next
    assume "P v"
    with x kv show "k \<in> set (map fst (filter (\<lambda>(n, w). P w) al))" by force
  qed
  then show "(case x of (k, v) \<Rightarrow> k \<notin> set (map fst (filter (\<lambda>(n, w). P w) al))) =
             (case x of (n, w) \<Rightarrow> \<not> P w)"
    by (simp add: kv)
qed

text \<open>
  C6. On a registry (a dict: distinct keys), \<^verbatim>\<open>cleanup_completed\<close> leaves exactly the
  records whose status is none of \<^verbatim>\<open>completed\<close>, \<^verbatim>\<open>killed\<close>, \<^verbatim>\<open>dead\<close>, in their order, and
  returns the number of records with one of these statuses, which is the number of
  records removed.
\<close>

theorem cleanup_selectivity:
  assumes "distinct (map fst (workers r))"
  shows "workers (snd (cleanup_completed r)) =
           filter (\<lambda>(name, w). status w \<notin> {''completed'', ''killed'', ''dead''}) (workers r) \<and>
         fst (cleanup_completed r) =
           length (filter (\<lambda>(name, w). status w \<in> {''completed'', ''killed'', ''dead''}) (workers r)) \<and>
         fst (cleanup_completed r) = length (workers r) - length (workers (snd (cleanup_completed r)))"
proof -
  let ?P = "\<lambda>w. status w \<in> {''completed'', ''killed'', ''dead''}"
  have rem: "removable = ?P" by (rule ext) (simp add: removable_def)
  have "workers (snd (cleanup_completed r)) =
          fold AList.delete (map fst (filter (\<lambda>(name, w). removable w) (workers r))) (workers r)"
    by (simp add: cleanup_completed_def Let_def save_workers_def)
  also have "\<dots> = filter (\<lambda>(name, w). \<not> removable w) (workers r)"
    unfolding fold_delete_filter by (rule filter_keys_distinct [OF assms])
  finally have w: "workers (snd (cleanup_completed r)) = filter (\<lambda>(name, w). \<not> ?P w) (workers r)"
    by (simp add: rem)
  have n: "fst (cleanup_completed r) = length (filter (\<lambda>(name, w). ?P w) (workers r))"
    by (simp add: cleanup_completed_def Let_def rem)
  have "length (workers r) =
          length (filter (\<lambda>(name, w). ?P w) (workers r)) +
          length (filter (\<lambda>(name, w). \<not> ?P w) (workers r))"
    using sum_length_filter_compl [of "\<lambda>(name, w). ?P w" "workers r"]
    by (simp add: case_prod_unfold)
  with w n show ?thesis by simp
qed

theorem cleanup_selectivity_witness:
  "distinct (map fst (workers runner2)) \<and>
   workers (snd (cleanup_completed runner2)) = [(''t3'', worker0 ''running'' (Some 4343))] \<and>
   fst (cleanup_completed runner2) = 1"
proof -
  have d: "distinct (map fst (workers runner2))" by (simp add: runner2_def runner0_def)
  have e: "filter (\<lambda>(name, w). status w \<notin> {''completed'', ''killed'', ''dead''}) (workers runner2) =
             [(''t3'', worker0 ''running'' (Some 4343))]"
    "length (filter (\<lambda>(name, w). status w \<in> {''completed'', ''killed'', ''dead''}) (workers runner2)) = 1"
    by (simp_all add: runner2_def runner0_def worker0_def)
  from cleanup_selectivity [OF d] d e show ?thesis by simp
qed

section \<open>The summarizer\<close>




text \<open>The loop passes over a prefix of skipped lines, and it ends without a result exactly
  when every line is skipped.\<close>

lemma scan_result_skipped:
  "list_all (skipped loads) xs \<Longrightarrow> scan_result loads (xs @ ys) = scan_result loads ys"
  by (induction xs) (auto simp: skipped_def split: sum.splits bool.splits if_splits)

lemma scan_result_hit:
  assumes "is_infix result_key line" "loads line = Inr (JObj kvs)" "map_of kvs ''result'' = Some (JStr t)"
  shows "scan_result loads (line # rest) = Some (Inr (JStr (if length t > 300 then take 300 t @ ''...'' else t)))"
proof -
  from assms(3) have "''result'' \<in> fst ` set kvs" by (auto dest: map_of_SomeD intro: rev_image_eqI)
  with assms show ?thesis by simp
qed

lemma scan_result_Cons_None:
  "scan_result loads (line # rest) = None \<longleftrightarrow> skipped loads line \<and> scan_result loads rest = None"
  by (auto simp: skipped_def split: sum.splits bool.splits if_splits)

lemma scan_result_None_iff:
  "scan_result loads ls = None \<longleftrightarrow> list_all (skipped loads) ls"
proof (induction ls)
  case Nil
  show ?case by simp
next
  case (Cons line rest)
  then show ?case by (simp only: scan_result_Cons_None list.pred_inject)
qed

text \<open>
  C7, as the code has it. Scanning the lines of a readable log from the end, the loop passes
  over the skipped lines. If the first line it does not pass over contains \<^verbatim>\<open>"result":\<close>
  and parses as an object whose \<^verbatim>\<open>result\<close> is a text, the summary is that text, cut to
  300 characters with \<^verbatim>\<open>...\<close> appended when it is longer. If every line is skipped, the
  summary is made of the last 20 lines: the lines that are blank or start with \<^verbatim>\<open>2026-\<close>
  are dropped, the last 5 of the rest are joined with newlines, and the first 200
  characters are kept.
\<close>

theorem summary_of_log:
  "(split_nl content = before @ line # after \<and> list_all (skipped loads) after \<and>
      is_infix result_key line \<and> loads line = Inr (JObj kvs) \<and> map_of kvs ''result'' = Some (JStr t)
    \<longrightarrow> extract_summary loads (Content content) =
          Inr (JStr (if length t > 300 then take 300 t @ ''...'' else t))) \<and>
   (list_all (skipped loads) (split_nl content)
    \<longrightarrow> extract_summary loads (Content content) =
          Inr (JStr (take 200 (join_nl (last_n 5 (filter meaningful (last_n 20 (split_nl content))))))))"
proof (intro conjI impI)
  assume a: "split_nl content = before @ line # after \<and> list_all (skipped loads) after \<and>
      is_infix result_key line \<and> loads line = Inr (JObj kvs) \<and> map_of kvs ''result'' = Some (JStr t)"
  then have "rev (split_nl content) = rev after @ line # rev before" by simp
  moreover from a have "list_all (skipped loads) (rev after)" by (simp add: list_all_iff)
  ultimately have "scan_result loads (rev (split_nl content)) = scan_result loads (line # rev before)"
    by (simp only: scan_result_skipped)
  also from a have "\<dots> = Some (Inr (JStr (if length t > 300 then take 300 t @ ''...'' else t)))"
    by (intro scan_result_hit) auto
  finally show "extract_summary loads (Content content) =
          Inr (JStr (if length t > 300 then take 300 t @ ''...'' else t))"
    by (simp add: extract_summary_def extract_summary_body_def)
next
  assume "list_all (skipped loads) (split_nl content)"
  then have "list_all (skipped loads) (rev (split_nl content))" by (simp add: list_all_iff)
  from scan_result_skipped [OF this, of "[]"]
  have "scan_result loads (rev (split_nl content)) = None" by simp
  then show "extract_summary loads (Content content) =
          Inr (JStr (take 200 (join_nl (last_n 5 (filter meaningful (last_n 20 (split_nl content)))))))"
    by (simp add: extract_summary_def extract_summary_body_def fallback_summary_def)
qed

theorem summary_of_log_witness:
  "split_nl demo_log1 = [''2026-01-01 start''] @ done_line # [''bye'', ''''] \<and>
   loads_demo done_line = Inr (JObj [(''result'', JStr ''Done'')]) \<and>
   extract_summary loads_demo (Content demo_log1) = Inr (JStr ''Done'') \<and>
   list_all (skipped loads_demo) (split_nl demo_log2) \<and>
   extract_summary loads_demo (Content demo_log2) = Inr (JStr (''bye'' @ [CHR 0x0A] @ ''now''))"
proof -
  have a: "split_nl demo_log1 = [''2026-01-01 start''] @ done_line # [''bye'', '''']"
    by (simp add: demo_log1_def done_line_def)
  have b: "list_all (skipped loads_demo) [''bye'', '''']"
    by (simp add: skipped_def result_key_def)
  have c: "is_infix result_key done_line"
    by (simp add: result_key_def done_line_def)
  have d: "loads_demo done_line = Inr (JObj [(''result'', JStr ''Done'')])"
    by (simp add: loads_demo_def)
  have e: "map_of [(''result'', JStr ''Done'')] ''result'' = Some (JStr ''Done'')"
    by simp
  have f: "split_nl demo_log2 = [''2026-01-01 start'', ''  '', ''bye'', ''now'']"
    by (simp add: demo_log2_def)
  have g: "list_all (skipped loads_demo) (split_nl demo_log2)"
    by (simp add: f skipped_def result_key_def)
  have h: "take 200 (join_nl (last_n 5 (filter meaningful (last_n 20 (split_nl demo_log2))))) = ''bye'' @ [CHR 0x0A] @ ''now''"
    by (simp add: f last_n_def meaningful_def py_strip_def py_isspace_def startswith_def)
  from summary_of_log [of demo_log1 "[''2026-01-01 start'']" done_line "[''bye'', '''']" loads_demo
      "[(''result'', JStr ''Done'')]" "''Done''"] a b c d e
  have i: "extract_summary loads_demo (Content demo_log1) = Inr (JStr ''Done'')" by simp
  from summary_of_log [of demo_log2 _ _ _ loads_demo] g h
  have j: "extract_summary loads_demo (Content demo_log2) = Inr (JStr (''bye'' @ [CHR 0x0A] @ ''now''))"
    by simp
  from a d i g j show ?thesis by simp
qed

text \<open>
  C7 as stated fails: the line \<^verbatim>\<open>{"result" : "Done"}\<close> parses as an object with a
  \<^verbatim>\<open>result\<close> field, but it does not contain the text \<^verbatim>\<open>"result":\<close>, so the summary is
  the fallback (here the line itself), not \<^verbatim>\<open>Done\<close>.
\<close>

theorem spaced_result_not_found:
  "loads_demo spaced_line = Inr (JObj [(''result'', JStr ''Done'')]) \<and>
   extract_summary loads_demo (Content spaced_line) = Inr (JStr spaced_line) \<and>
   extract_summary loads_demo (Content spaced_line) \<noteq> Inr (JStr ''Done'')"
  by (simp add: loads_demo_def spaced_line_def done_line_def extract_summary_def extract_summary_body_def
      result_key_def fallback_summary_def last_n_def meaningful_def py_strip_def py_isspace_def startswith_def)





lemma py_len_str: "py_len (JStr s) = Inr n \<Longrightarrow> n = length s"
  by simp














section \<open>What the operations write into the registry\<close>

text \<open>
  Every entry of the registry after an operation is an entry it had before, or a record
  of one of the shapes the runner writes. \<^verbatim>\<open>_handle_completion\<close> changes nothing but the
  notifications.
\<close>

lemma set_update_cases:
  "x \<in> set (AList.update k v al) \<Longrightarrow> x \<in> set al \<or> x = (k, v)"
  by (induction al) (auto split: if_splits)

lemma handle_completion_cases:
  assumes "handle_completion e n r = (x, r')"
  shows "workers r' = workers r \<and> writes r' = writes r \<and> signals r' = signals r \<and>
         launched r' = launched r \<and>
         (case x of
            Some ex \<Rightarrow> notified r' = notified r
          | None \<Rightarrow>
              (case map_of (workers r) n of
                 None \<Rightarrow> notified r' = notified r
               | Some w \<Rightarrow> (\<exists>m. notified r' = notified r @ [(n, notify_target w, m)])))"
  using assms
  by (auto simp: handle_completion_def notify_completion_def Let_def
      split: option.splits sum.splits prod.splits)

lemma handle_completion_workers:
  "workers (snd (handle_completion e n r)) = workers r"
  using handle_completion_cases [of e n r "fst (handle_completion e n r)" "snd (handle_completion e n r)"]
  by simp

lemma run_workers_cases:
  "workers (snd (run e name p m b t bg r)) = workers r \<or>
   (\<exists>po. workers (snd (run e name p m b t bg r)) =
          AList.update name (new_worker e name p m b t bg po) (workers r))"
proof (cases bg)
  case True
  then show ?thesis
    by (auto simp: run_def Let_def store_worker_def save_workers_def split: sum.splits)
next
  case False
  let ?r1 = "r\<lparr>launched := launched r @ [claude_cmd e name m b p]\<rparr>"
  let ?r2 = "store_worker name (new_worker e name p m b t bg None) ?r1"
  have "workers (snd (handle_completion e name ?r2)) =
          AList.update name (new_worker e name p m b t bg None) (workers r)"
    by (simp add: handle_completion_workers store_worker_def save_workers_def)
  then have "workers (snd (case handle_completion e name ?r2 of
        (Some ex, r2) \<Rightarrow> (False, r2) | (None, r2) \<Rightarrow> (True, r2))) =
          AList.update name (new_worker e name p m b t bg None) (workers r)"
    by (cases "handle_completion e name ?r2") (auto split: option.splits)
  with False show ?thesis
    by (auto simp: run_def Let_def split: sum.splits)
qed

lemma run_entries:
  assumes "(n, w) \<in> set (workers (snd (run e name p m b t bg r)))"
  shows "(n, w) \<in> set (workers r) \<or> written w"
proof -
  have wr: "written (new_worker e name p m b t bg po)" for po
    by (simp add: written_def new_worker_def)
  from run_workers_cases [of e name p m b t bg r] show ?thesis
  proof
    assume "workers (snd (run e name p m b t bg r)) = workers r"
    with assms show ?thesis by simp
  next
    assume "\<exists>po. workers (snd (run e name p m b t bg r)) =
              AList.update name (new_worker e name p m b t bg po) (workers r)"
    then obtain po where "workers (snd (run e name p m b t bg r)) =
              AList.update name (new_worker e name p m b t bg po) (workers r)" ..
    with assms have "(n, w) \<in> set (AList.update name (new_worker e name p m b t bg po) (workers r))"
      by simp
    from set_update_cases [OF this] wr [of po] show ?thesis by auto
  qed
qed

lemma kill_entries:
  assumes "(n, w) \<in> set (workers (snd (kill_worker e name r)))"
  shows "(n, w) \<in> set (workers r) \<or> written w"
  using assms
  by (auto simp: kill_worker_def save_workers_def written_def
      split: option.splits if_splits dest!: set_update_cases)

text \<open>The four ways one turn of the sweep's loop can go.\<close>

lemma check_loop_turn:
  obtains
    (skip) "check_loop e ((name, w0) # snap) u r = check_loop e snap u r"
      "status w0 \<noteq> ''running'' \<or> pid w0 = None \<or> pid w0 = Some 0 \<or>
       (\<exists>p. pid w0 = Some p \<and> kill0 e p = None)"
  | (stop) p ex where
      "status w0 = ''running''" "pid w0 = Some p" "p \<noteq> 0" "kill0 e p = Some ex" "\<not> is_OSError ex"
      "check_loop e ((name, w0) # snap) u r = (Some ex, u, r)"
  | (hc_stop) p ex ex' r' where
      "status w0 = ''running''" "pid w0 = Some p" "p \<noteq> 0" "kill0 e p = Some ex" "is_OSError ex"
      "handle_completion e name
         (r\<lparr>workers := AList.update name (w0\<lparr>status := ''completed'', end_time := Some (now e)\<rparr>) (workers r)\<rparr>)
       = (Some ex', r')"
      "check_loop e ((name, w0) # snap) u r = (Some ex', True, r')"
  | (hc_go) p ex r' where
      "status w0 = ''running''" "pid w0 = Some p" "p \<noteq> 0" "kill0 e p = Some ex" "is_OSError ex"
      "handle_completion e name
         (r\<lparr>workers := AList.update name (w0\<lparr>status := ''completed'', end_time := Some (now e)\<rparr>) (workers r)\<rparr>)
       = (None, r')"
      "check_loop e ((name, w0) # snap) u r = check_loop e snap True r'"
proof (cases "pid w0")
  case None
  then show ?thesis by (intro skip) simp_all
next
  case (Some p)
  show ?thesis
  proof (cases "status w0 = ''running'' \<and> p \<noteq> 0")
    case False
    with Some show ?thesis by (intro skip) auto
  next
    case True
    show ?thesis
    proof (cases "kill0 e p")
      case None
      with Some True show ?thesis by (intro skip) auto
    next
      case probe: (Some ex)
      show ?thesis
      proof (cases "is_OSError ex")
        case False
        with Some True probe show ?thesis by (intro stop [of p ex]) auto
      next
        case os: True
        let ?r1 = "r\<lparr>workers := AList.update name (w0\<lparr>status := ''completed'', end_time := Some (now e)\<rparr>) (workers r)\<rparr>"
        obtain x r' where hc: "handle_completion e name ?r1 = (x, r')"
          by (cases "handle_completion e name ?r1")
        show ?thesis
        proof (cases x)
          case None
          with Some True probe os hc show ?thesis by (intro hc_go [of p ex r']) auto
        next
          case (Some ex')
          with \<open>pid w0 = Some p\<close> True probe os hc show ?thesis by (intro hc_stop [of p ex ex' r']) auto
        qed
      qed
    qed
  qed
qed

lemma check_loop_entries:
  "(n, w) \<in> set (workers (snd (snd (check_loop e snap u r)))) \<Longrightarrow>
   (n, w) \<in> set (workers r) \<or> written w"
proof (induction snap arbitrary: u r)
  case Nil
  then show ?case by simp
next
  case (Cons a snap)
  obtain name w0 where a: "a = (name, w0)" by (cases a)
  let ?r1 = "r\<lparr>workers := AList.update name (w0\<lparr>status := ''completed'', end_time := Some (now e)\<rparr>) (workers r)\<rparr>"
  have upd: "x \<in> set (workers ?r1) \<Longrightarrow> x \<in> set (workers r) \<or> written (snd x)" for x
    by (auto dest!: set_update_cases simp: written_def)
  show ?case
  proof (cases rule: check_loop_turn [of e name w0 snap u r])
    case skip
    with Cons a show ?thesis by simp
  next
    case stop
    with Cons.prems a show ?thesis by simp
  next
    case (hc_stop p ex ex' r')
    from handle_completion_cases [OF hc_stop(6)] have "workers r' = workers ?r1" by simp
    with hc_stop(7) Cons.prems a upd [of "(n, w)"] show ?thesis by simp
  next
    case (hc_go p ex r')
    from handle_completion_cases [OF hc_go(6)] have w: "workers r' = workers ?r1" by simp
    from Cons.prems hc_go(7) a have "(n, w) \<in> set (workers (snd (snd (check_loop e snap True r'))))" by simp
    from Cons.IH [OF this] w upd [of "(n, w)"] show ?thesis by auto
  qed
qed

lemma check_entries:
  assumes "(n, w) \<in> set (workers (snd (check_worker_statuses e r)))"
  shows "(n, w) \<in> set (workers r) \<or> written w"
proof -
  obtain x u r' where cl: "check_loop e (workers r) False r = (x, u, r')"
    by (cases "check_loop e (workers r) False r") auto
  with assms have "(n, w) \<in> set (workers r')"
    by (cases x) (auto simp: check_worker_statuses_def save_workers_def split: if_splits)
  with cl check_loop_entries [of n w e "workers r" False r] show ?thesis by simp
qed

lemma cleanup_entries:
  assumes "(n, w) \<in> set (workers (snd (cleanup_completed r)))"
  shows "(n, w) \<in> set (workers r)"
proof -
  have "workers (snd (cleanup_completed r)) =
          fold AList.delete (map fst (filter (\<lambda>(name, w). removable w) (workers r))) (workers r)"
    by (simp add: cleanup_completed_def Let_def save_workers_def)
  with assms show ?thesis by (simp add: fold_delete_filter)
qed

lemma step_entries:
  "(n, w) \<in> set (workers (step op r)) \<Longrightarrow> (n, w) \<in> set (workers r) \<or> written w"
  by (cases op) (auto dest: run_entries kill_entries check_entries cleanup_entries)

text \<open>The registry stays a dict: every operation keeps its keys distinct.\<close>

lemma check_loop_distinct:
  "distinct (map fst (workers r)) \<Longrightarrow>
   distinct (map fst (workers (snd (snd (check_loop e snap u r)))))"
proof (induction snap arbitrary: u r)
  case Nil
  then show ?case by simp
next
  case (Cons a snap)
  obtain n0 w0 where a: "a = (n0, w0)" by (cases a)
  let ?r1 = "r\<lparr>workers := AList.update n0 (w0\<lparr>status := ''completed'', end_time := Some (now e)\<rparr>) (workers r)\<rparr>"
  from Cons.prems have d1: "distinct (map fst (workers ?r1))" by (simp add: AList.distinct_update)
  show ?case
  proof (cases rule: check_loop_turn [of e n0 w0 snap u r])
    case skip
    with Cons a show ?thesis by simp
  next
    case stop
    with Cons.prems a show ?thesis by simp
  next
    case (hc_stop p ex ex' r')
    from handle_completion_cases [OF hc_stop(6)] d1 hc_stop(7) a show ?thesis by simp
  next
    case (hc_go p ex r')
    from handle_completion_cases [OF hc_go(6)] d1 have "distinct (map fst (workers r'))" by simp
    from Cons.IH [OF this, of True] hc_go(7) a show ?thesis by simp
  qed
qed

lemma check_distinct:
  assumes "distinct (map fst (workers r))"
  shows "distinct (map fst (workers (snd (check_worker_statuses e r))))"
proof -
  obtain x u r' where cl: "check_loop e (workers r) False r = (x, u, r')"
    by (cases "check_loop e (workers r) False r") auto
  with check_loop_distinct [OF assms, of e "workers r" False] have "distinct (map fst (workers r'))"
    by simp
  with cl show ?thesis
    by (cases x) (simp_all add: check_worker_statuses_def save_workers_def)
qed

lemma step_distinct:
  assumes "distinct (map fst (workers r))"
  shows "distinct (map fst (workers (step op r)))"
proof (cases op)
  case (Run e name p m b t bg)
  with assms run_workers_cases [of e name p m b t bg r] show ?thesis
    by (auto simp: AList.distinct_update)
next
  case (Kill e name)
  with assms show ?thesis
    by (auto simp: kill_worker_def save_workers_def AList.distinct_update split: option.splits)
next
  case (Check e)
  with check_distinct [OF assms] show ?thesis by simp
next
  case Cleanup
  have "workers (snd (cleanup_completed r)) =
          fold AList.delete (map fst (filter (\<lambda>(name, w). removable w) (workers r))) (workers r)"
    by (simp add: cleanup_completed_def Let_def save_workers_def)
  with assms Cleanup show ?thesis by (simp add: fold_delete_filter distinct_map_filter)
qed

lemmas demo_defs = runner1_def runner0_def worker0_def env0_def no_such_process_def tmp_log_path_def

lemmas sweep_defs = check_worker_statuses_def handle_completion_def extract_summary_def
  extract_summary_body_def notify_completion_def format_completion_message_def save_workers_def

text \<open>
  C10. After any operation, an entry of the registry that was not there before (a record
  inserted or mutated) has one of the statuses \<^verbatim>\<open>running\<close>, \<^verbatim>\<open>completed\<close>, \<^verbatim>\<open>killed\<close>,
  \<^verbatim>\<open>dead\<close>. And a spawn that fails (no authentication, the launch raises, or the
  foreground process exits with a code other than 0) returns \<^verbatim>\<open>False\<close> and stores nothing:
  the registry and the writes of its file are as before.
\<close>

theorem step_status_drawn:
  "((n, w) \<in> set (workers (step op r)) \<longrightarrow>
      (n, w) \<in> set (workers r) \<or> status w \<in> {''running'', ''completed'', ''killed'', ''dead''}) \<and>
   (\<not> authenticated e \<or>
    (bg \<and> (\<exists>ex. popen e (''nohup'' # claude_cmd e name m b p) = Inl ex)) \<or>
    (\<not> bg \<and> ((\<exists>ex. subprocess_run e (claude_cmd e name m b p) = Inl ex) \<or>
              (\<exists>rc. subprocess_run e (claude_cmd e name m b p) = Inr rc \<and> rc \<noteq> 0)))
    \<longrightarrow> fst (run e name p m b t bg r) = False \<and>
        workers (snd (run e name p m b t bg r)) = workers r \<and>
        writes (snd (run e name p m b t bg r)) = writes r)"
proof (rule conjI)
  show "(n, w) \<in> set (workers (step op r)) \<longrightarrow>
      (n, w) \<in> set (workers r) \<or> status w \<in> {''running'', ''completed'', ''killed'', ''dead''}"
  proof
    assume "(n, w) \<in> set (workers (step op r))"
    from step_entries [OF this]
    show "(n, w) \<in> set (workers r) \<or> status w \<in> {''running'', ''completed'', ''killed'', ''dead''}"
      by (auto simp: written_def split: if_splits)
  qed
next
  show "\<not> authenticated e \<or>
    (bg \<and> (\<exists>ex. popen e (''nohup'' # claude_cmd e name m b p) = Inl ex)) \<or>
    (\<not> bg \<and> ((\<exists>ex. subprocess_run e (claude_cmd e name m b p) = Inl ex) \<or>
              (\<exists>rc. subprocess_run e (claude_cmd e name m b p) = Inr rc \<and> rc \<noteq> 0)))
    \<longrightarrow> fst (run e name p m b t bg r) = False \<and>
        workers (snd (run e name p m b t bg r)) = workers r \<and>
        writes (snd (run e name p m b t bg r)) = writes r"
    by (auto simp: run_def Let_def)
qed

theorem step_status_drawn_witness:
  "(''t1'', (worker0 ''running'' (Some 4242))\<lparr>status := ''dead'', end_time := Some 100\<rparr>)
      \<in> set (workers (step (Kill env0 ''t1'') runner1)) \<and>
   (''t1'', (worker0 ''running'' (Some 4242))\<lparr>status := ''dead'', end_time := Some 100\<rparr>)
      \<notin> set (workers runner1) \<and>
   status ((worker0 ''running'' (Some 4242))\<lparr>status := ''dead'', end_time := Some 100\<rparr>)
      \<in> {''running'', ''completed'', ''killed'', ''dead''} \<and>
   popen (env0\<lparr>popen := (\<lambda>cmd. Inl no_such_process)\<rparr>)
      (''nohup'' # claude_cmd (env0\<lparr>popen := (\<lambda>cmd. Inl no_such_process)\<rparr>) ''t2'' ''haiku'' 2 ''p'') = Inl no_such_process \<and>
   fst (run (env0\<lparr>popen := (\<lambda>cmd. Inl no_such_process)\<rparr>) ''t2'' ''p'' ''haiku'' 2 ''main'' True runner1) = False \<and>
   workers (snd (run (env0\<lparr>popen := (\<lambda>cmd. Inl no_such_process)\<rparr>) ''t2'' ''p'' ''haiku'' 2 ''main'' True runner1)) =
     workers runner1"
proof -
  let ?w = "(worker0 ''running'' (Some 4242))\<lparr>status := ''dead'', end_time := Some 100\<rparr>"
  let ?e = "env0\<lparr>popen := (\<lambda>cmd. Inl no_such_process)\<rparr>"
  have a: "(''t1'', ?w) \<in> set (workers (step (Kill env0 ''t1'') runner1))"
    by (simp add: kill_worker_def save_workers_def demo_defs)
  have b: "(''t1'', ?w) \<notin> set (workers runner1)"
    by (simp add: demo_defs)
  have c: "popen ?e (''nohup'' # claude_cmd ?e ''t2'' ''haiku'' 2 ''p'') = Inl no_such_process"
    by simp
  note t = step_status_drawn [of "''t1''" ?w "Kill env0 ''t1''" runner1 ?e True "''t2''" "''haiku''" 2 "''p''" "''main''"]
  from t a b have d: "status ?w \<in> {''running'', ''completed'', ''killed'', ''dead''}" by blast
  from t c have e: "fst (run ?e ''t2'' ''p'' ''haiku'' 2 ''main'' True runner1) = False"
    "workers (snd (run ?e ''t2'' ''p'' ''haiku'' 2 ''main'' True runner1)) = workers runner1"
    by blast+
  from a b c d e show ?thesis by blast
qed

text \<open>One operation keeps the invariant on every record.\<close>

lemma step_keeps_end_time_ok:
  assumes "list_all (\<lambda>(n, w). end_time_ok w) (workers r)"
  shows "list_all (\<lambda>(n, w). end_time_ok w) (workers (step op r))"
proof -
  have "written w \<Longrightarrow> end_time_ok w" for w
    by (auto simp: written_def end_time_ok_def end_time_iff_terminal_def terminal_def split: if_splits)
  with assms step_entries [of _ _ op r] show ?thesis
    by (fastforce simp: list_all_iff)
qed

text \<open>
  C3, as the code has it. Over any sequence of operations (spawn in the background or the
  foreground, kill, sweep, cleanup), every record keeps: \<^verbatim>\<open>end_time\<close> is present exactly
  when the status is terminal, or the record is \<^verbatim>\<open>completed\<close>, not in the background and
  without \<^verbatim>\<open>end_time\<close>, as a foreground spawn stores it.
\<close>

theorem end_time_invariant:
  "list_all (\<lambda>(n, w). end_time_ok w) (workers r) \<Longrightarrow>
   list_all (\<lambda>(n, w). end_time_ok w) (workers (fold step ops r))"
  by (induction ops arbitrary: r) (simp_all add: step_keeps_end_time_ok)

theorem end_time_invariant_witness:
  "list_all (\<lambda>(n, w). end_time_ok w) (workers runner1) \<and>
   list_all (\<lambda>(n, w). end_time_ok w)
     (workers (fold step [Run env0 ''t2'' ''p'' ''haiku'' 2 ''main'' False, Kill env0 ''t1''] runner1)) \<and>
   workers (fold step [Run env0 ''t2'' ''p'' ''haiku'' 2 ''main'' False, Kill env0 ''t1''] runner1) =
     [(''t1'', (worker0 ''running'' (Some 4242))\<lparr>status := ''dead'', end_time := Some 100\<rparr>),
      (''t2'', new_worker env0 ''t2'' ''p'' ''haiku'' 2 ''main'' False None)]"
proof -
  have a: "list_all (\<lambda>(n, w). end_time_ok w) (workers runner1)"
    by (simp add: demo_defs end_time_ok_def end_time_iff_terminal_def terminal_def)
  have b: "workers (fold step [Run env0 ''t2'' ''p'' ''haiku'' 2 ''main'' False, Kill env0 ''t1''] runner1) =
     [(''t1'', (worker0 ''running'' (Some 4242))\<lparr>status := ''dead'', end_time := Some 100\<rparr>),
      (''t2'', new_worker env0 ''t2'' ''p'' ''haiku'' 2 ''main'' False None)]"
    by (simp add: run_def kill_worker_def store_worker_def new_worker_def claude_cmd_def demo_defs sweep_defs)
  from end_time_invariant [OF a, of "[Run env0 ''t2'' ''p'' ''haiku'' 2 ''main'' False, Kill env0 ''t1'']"] a b
  show ?thesis by simp
qed

text \<open>
  C3 as stated fails: a foreground \<^verbatim>\<open>run\<close> stores a record with the terminal status
  \<^verbatim>\<open>completed\<close> and no \<^verbatim>\<open>end_time\<close>.
\<close>

theorem foreground_completed_without_end_time:
  "fst (run env0 ''t2'' ''p'' ''haiku'' 2 ''main'' False runner0) = True \<and>
   workers (snd (run env0 ''t2'' ''p'' ''haiku'' 2 ''main'' False runner0)) =
     [(''t2'', new_worker env0 ''t2'' ''p'' ''haiku'' 2 ''main'' False None)] \<and>
   status (new_worker env0 ''t2'' ''p'' ''haiku'' 2 ''main'' False None) = ''completed'' \<and>
   end_time (new_worker env0 ''t2'' ''p'' ''haiku'' 2 ''main'' False None) = None \<and>
   \<not> end_time_iff_terminal (new_worker env0 ''t2'' ''p'' ''haiku'' 2 ''main'' False None)"
  by (simp add: run_def store_worker_def new_worker_def claude_cmd_def demo_defs sweep_defs
      end_time_iff_terminal_def terminal_def)

section \<open>Kill and the status sweep on the same worker\<close>

text \<open>
  The sweep passes over a worker that is not \<^verbatim>\<open>running\<close>: its record and its notifications
  stay. On a \<^verbatim>\<open>running\<close> worker whose process is gone, a sweep that returns marks it
  \<^verbatim>\<open>completed\<close> and hands exactly one notification to the sender.
\<close>

lemma handle_completion_other:
  assumes "handle_completion e n r = (x, r')" "n \<noteq> name"
  shows "notified_for name r' = notified_for name r"
  using handle_completion_cases [OF assms(1)] assms(2)
  by (auto simp: notified_for_def split: option.splits)

lemma handle_completion_same:
  assumes "handle_completion e name r = (None, r')" "map_of (workers r) name = Some w"
  shows "\<exists>m. notified_for name r' = notified_for name r @ [(name, notify_target w, m)]"
  using handle_completion_cases [OF assms(1)] assms(2)
  by (auto simp: notified_for_def)

lemma check_loop_not_running:
  assumes "\<forall>w0. (name, w0) \<in> set snap \<longrightarrow> status w0 \<noteq> ''running''"
  shows "map_of (workers (snd (snd (check_loop e snap u r)))) name = map_of (workers r) name \<and>
         notified_for name (snd (snd (check_loop e snap u r))) = notified_for name r"
  using assms
proof (induction snap arbitrary: u r)
  case Nil
  show ?case by simp
next
  case (Cons a snap)
  obtain n0 w0 where a: "a = (n0, w0)" by (cases a)
  let ?r1 = "r\<lparr>workers := AList.update n0 (w0\<lparr>status := ''completed'', end_time := Some (now e)\<rparr>) (workers r)\<rparr>"
  from Cons.prems have rest: "\<forall>w0. (name, w0) \<in> set snap \<longrightarrow> status w0 \<noteq> ''running''" by simp
  have other: "status w0 = ''running'' \<Longrightarrow> n0 \<noteq> name"
    using Cons.prems a by auto
  have r1: "n0 \<noteq> name \<Longrightarrow> map_of (workers ?r1) name = map_of (workers r) name \<and>
            notified_for name ?r1 = notified_for name r"
    by (simp add: AList.update_conv' notified_for_def)
  show ?case
  proof (cases rule: check_loop_turn [of e n0 w0 snap u r])
    case skip
    with Cons.IH [OF rest] a show ?thesis by simp
  next
    case stop
    with a show ?thesis by simp
  next
    case (hc_stop p ex ex' r')
    from handle_completion_cases [OF hc_stop(6)] have "workers r' = workers ?r1" by simp
    moreover from handle_completion_other [OF hc_stop(6) other [OF hc_stop(1)]]
    have "notified_for name r' = notified_for name ?r1" .
    ultimately show ?thesis using r1 [OF other [OF hc_stop(1)]] hc_stop(7) a by simp
  next
    case (hc_go p ex r')
    from handle_completion_cases [OF hc_go(6)] have "workers r' = workers ?r1" by simp
    moreover from handle_completion_other [OF hc_go(6) other [OF hc_go(1)]]
    have "notified_for name r' = notified_for name ?r1" .
    ultimately show ?thesis using r1 [OF other [OF hc_go(1)]] hc_go(7) a Cons.IH [OF rest, of True r'] by simp
  qed
qed

lemma check_not_running:
  assumes "distinct (map fst (workers r))" "map_of (workers r) name = Some w" "status w \<noteq> ''running''"
  shows "map_of (workers (snd (check_worker_statuses e r))) name = Some w \<and>
         notified_for name (snd (check_worker_statuses e r)) = notified_for name r"
proof -
  have "\<forall>w0. (name, w0) \<in> set (workers r) \<longrightarrow> status w0 \<noteq> ''running''"
  proof (intro allI impI)
    fix w0 assume "(name, w0) \<in> set (workers r)"
    with assms(1) have "map_of (workers r) name = Some w0" by (rule map_of_is_SomeI)
    with assms(2,3) show "status w0 \<noteq> ''running''" by simp
  qed
  from check_loop_not_running [OF this, of e False r] assms(2)
  have l: "map_of (workers (snd (snd (check_loop e (workers r) False r)))) name = Some w"
    "notified_for name (snd (snd (check_loop e (workers r) False r))) = notified_for name r"
    by simp_all
  obtain x u r' where cl: "check_loop e (workers r) False r = (x, u, r')"
    by (cases "check_loop e (workers r) False r") auto
  with l show ?thesis
    by (cases x) (simp_all add: check_worker_statuses_def save_workers_def notified_for_def)
qed

lemma check_loop_gone:
  assumes "distinct (map fst snap)" "(name, w) \<in> set snap"
    and "status w = ''running''" "pid w = Some p" "p \<noteq> 0" "kill0 e p = Some ex" "is_OSError ex"
    and "check_loop e snap u r = (None, u', r')"
  shows "u' \<and> map_of (workers r') name = Some (w\<lparr>status := ''completed'', end_time := Some (now e)\<rparr>) \<and>
         (\<exists>m. notified_for name r' = notified_for name r @ [(name, notify_target w, m)])"
  using assms(1,2,8)
proof (induction snap arbitrary: u r)
  case Nil
  then show ?case by simp
next
  case (Cons a snap)
  obtain n0 w0 where a: "a = (n0, w0)" by (cases a)
  let ?r1 = "r\<lparr>workers := AList.update n0 (w0\<lparr>status := ''completed'', end_time := Some (now e)\<rparr>) (workers r)\<rparr>"
  from Cons.prems(1) a have d: "distinct (map fst snap)" "n0 \<notin> fst ` set snap" by simp_all
  show ?case
  proof (cases "n0 = name")
    case True
    with Cons.prems(2) a d(2) have w0: "w0 = w" by force
    from True d(2) have absent: "\<forall>w0. (name, w0) \<in> set snap \<longrightarrow> status w0 \<noteq> ''running''" by force
    show ?thesis
    proof (cases rule: check_loop_turn [of e n0 w0 snap u r])
      case skip
      with w0 assms(3-7) show ?thesis by auto
    next
      case stop
      with w0 assms(3-7) show ?thesis by auto
    next
      case (hc_stop p' ex0 ex' r1)
      with Cons.prems(3) a show ?thesis by simp
    next
      case (hc_go p' ex0 r1)
      have m1: "map_of (workers ?r1) name = Some (w\<lparr>status := ''completed'', end_time := Some (now e)\<rparr>)"
        using True w0 by (simp add: AList.update_conv')
      from handle_completion_cases [OF hc_go(6)] have wr1: "workers r1 = workers ?r1" by simp
      from hc_go(6) True have hc: "handle_completion e name ?r1 = (None, r1)" by simp
      from handle_completion_same [OF hc m1]
      obtain m where m: "notified_for name r1 = notified_for name r @ [(name, notify_target w, m)]"
        by (auto simp: notified_for_def)
      from Cons.prems(3) a hc_go(7) have rest: "check_loop e snap True r1 = (None, u', r')" by simp
      from check_loop_not_running [OF absent, of e True r1] rest
      have "map_of (workers r') name = map_of (workers r1) name" "notified_for name r' = notified_for name r1"
        by simp_all
      moreover have "u'"
      proof -
        have "fst (snd (check_loop e xs True s))" for xs s
        proof (induction xs arbitrary: s)
          case Nil
          show ?case by simp
        next
          case (Cons b xs)
          obtain n1 w1 where b: "b = (n1, w1)" by (cases b)
          show ?case
            by (cases rule: check_loop_turn [of e n1 w1 xs True s]) (simp_all add: b Cons)
        qed
        from this [of snap r1] rest show ?thesis by simp
      qed
      ultimately show ?thesis using m m1 wr1 by auto
    qed
  next
    case False
    with Cons.prems(2) a have mem: "(name, w) \<in> set snap" by simp
    have r1: "notified_for name ?r1 = notified_for name r" by (simp add: notified_for_def)
    show ?thesis
    proof (cases rule: check_loop_turn [of e n0 w0 snap u r])
      case skip
      with Cons.prems(3) a have "check_loop e snap u r = (None, u', r')" by simp
      from Cons.IH [OF d(1) mem this] show ?thesis .
    next
      case stop
      with Cons.prems(3) a show ?thesis by simp
    next
      case (hc_stop p' ex0 ex' r1)
      with Cons.prems(3) a show ?thesis by simp
    next
      case (hc_go p' ex0 r1)
      from Cons.prems(3) a hc_go(7) have "check_loop e snap True r1 = (None, u', r')" by simp
      from Cons.IH [OF d(1) mem this] handle_completion_other [OF hc_go(6) False] r1
      show ?thesis by simp
    qed
  qed
qed

lemma check_gone:
  assumes "distinct (map fst (workers r))" "map_of (workers r) name = Some w"
    and "status w = ''running''" "pid w = Some p" "p \<noteq> 0" "kill0 e p = Some ex" "is_OSError ex"
    and "fst (check_worker_statuses e r) = None"
  shows "map_of (workers (snd (check_worker_statuses e r))) name =
           Some (w\<lparr>status := ''completed'', end_time := Some (now e)\<rparr>) \<and>
         (\<exists>m. notified_for name (snd (check_worker_statuses e r)) =
                notified_for name r @ [(name, notify_target w, m)]) \<and>
         writes (snd (check_worker_statuses e r)) = writes r @ [workers (snd (check_worker_statuses e r))]"
proof -
  obtain x u r' where cl: "check_loop e (workers r) False r = (x, u, r')"
    by (cases "check_loop e (workers r) False r") auto
  with assms(8) have x: "x = None" by (cases x) (simp_all add: check_worker_statuses_def)
  from assms(2) have mem: "(name, w) \<in> set (workers r)" by (rule map_of_SomeD)
  from check_loop_gone [OF assms(1) mem assms(3-7) cl [unfolded x]]
  have g: "u" "map_of (workers r') name = Some (w\<lparr>status := ''completed'', end_time := Some (now e)\<rparr>)"
    "\<exists>m. notified_for name r' = notified_for name r @ [(name, notify_target w, m)]"
    by simp_all
  have wr: "writes r' = writes r"
  proof -
    have "writes (snd (snd (check_loop e xs b s))) = writes s" for xs b s
    proof (induction xs arbitrary: b s)
      case Nil
      show ?case by simp
    next
      case (Cons c xs)
      obtain n1 w1 where c: "c = (n1, w1)" by (cases c)
      show ?case
      proof (cases rule: check_loop_turn [of e n1 w1 xs b s])
        case skip
        with Cons c show ?thesis by simp
      next
        case stop
        with c show ?thesis by simp
      next
        case (hc_stop p ex ex' s')
        from handle_completion_cases [OF hc_stop(6)] hc_stop(7) c show ?thesis by simp
      next
        case (hc_go p ex s')
        from handle_completion_cases [OF hc_go(6)] hc_go(7) c Cons [of True s'] show ?thesis by simp
      qed
    qed
    from this [of "workers r" False r] cl show ?thesis by simp
  qed
  from cl x g wr show ?thesis
    by (simp add: check_worker_statuses_def save_workers_def notified_for_def)
qed

text \<open>
  A kill and a sweep that run one after the other on a \<^verbatim>\<open>running\<close> worker with a pid.
  Kill first (the signal is delivered, or the process is already gone): the kill returns
  \<^verbatim>\<open>True\<close>, the later sweep leaves the record \<^verbatim>\<open>killed\<close> (or \<^verbatim>\<open>dead\<close>) and dispatches no
  notification about the worker. Sweep first (the process is gone and the sweep returns):
  the record is \<^verbatim>\<open>completed\<close>, exactly one notification about the worker is dispatched,
  the later kill returns \<^verbatim>\<open>False\<close> and changes nothing, and a later sweep dispatches no
  further notification about the worker.
\<close>

lemma kill_and_sweep_in_sequence:
  assumes "distinct (map fst (workers r))" and "map_of (workers r) name = Some w"
    and "status w = ''running''" and "pid w = Some p" and "p \<noteq> 0"
  shows "(killpg eK p = None \<or> (\<exists>ex. killpg eK p = Some ex \<and> is_OSError ex) \<longrightarrow>
            fst (kill_worker eK name r) = Inr True \<and>
            map_of (workers (snd (check_worker_statuses eC (snd (kill_worker eK name r))))) name =
              Some (w\<lparr>status := (if killpg eK p = None then ''killed'' else ''dead''),
                      end_time := Some (now eK)\<rparr>) \<and>
            notified_for name (snd (check_worker_statuses eC (snd (kill_worker eK name r)))) =
              notified_for name r) \<and>
         ((\<exists>ex. kill0 eC p = Some ex \<and> is_OSError ex) \<and> fst (check_worker_statuses eC r) = None \<longrightarrow>
            map_of (workers (snd (check_worker_statuses eC r))) name =
              Some (w\<lparr>status := ''completed'', end_time := Some (now eC)\<rparr>) \<and>
            (\<exists>m. notified_for name (snd (check_worker_statuses eC r)) =
                   notified_for name r @ [(name, notify_target w, m)]) \<and>
            kill_worker eK name (snd (check_worker_statuses eC r)) =
              (Inr False, snd (check_worker_statuses eC r)) \<and>
            notified_for name (snd (check_worker_statuses eC' (snd (check_worker_statuses eC r)))) =
              notified_for name (snd (check_worker_statuses eC r)))"
proof (rule conjI)
  show "killpg eK p = None \<or> (\<exists>ex. killpg eK p = Some ex \<and> is_OSError ex) \<longrightarrow>
            fst (kill_worker eK name r) = Inr True \<and>
            map_of (workers (snd (check_worker_statuses eC (snd (kill_worker eK name r))))) name =
              Some (w\<lparr>status := (if killpg eK p = None then ''killed'' else ''dead''),
                      end_time := Some (now eK)\<rparr>) \<and>
            notified_for name (snd (check_worker_statuses eC (snd (kill_worker eK name r)))) =
              notified_for name r"
  proof
    assume k: "killpg eK p = None \<or> (\<exists>ex. killpg eK p = Some ex \<and> is_OSError ex)"
    let ?w' = "w\<lparr>status := (if killpg eK p = None then ''killed'' else ''dead''), end_time := Some (now eK)\<rparr>"
    let ?r1 = "snd (kill_worker eK name r)"
    from k assms have res: "fst (kill_worker eK name r) = Inr True"
      by (auto simp: kill_worker_def)
    from k assms have w1: "workers ?r1 = AList.update name ?w' (workers r)"
      by (auto simp: kill_worker_def save_workers_def)
    from k assms have n1: "notified ?r1 = notified r"
      by (auto simp: kill_worker_def save_workers_def)
    from w1 assms(1) have d1: "distinct (map fst (workers ?r1))" by (simp add: AList.distinct_update)
    from w1 have m1: "map_of (workers ?r1) name = Some ?w'" by (simp add: AList.update_conv')
    have s1: "status ?w' \<noteq> ''running''" by simp
    from check_not_running [OF d1 m1 s1, of eC] n1 res
    show "fst (kill_worker eK name r) = Inr True \<and>
            map_of (workers (snd (check_worker_statuses eC ?r1))) name = Some ?w' \<and>
            notified_for name (snd (check_worker_statuses eC ?r1)) = notified_for name r"
      by (simp add: notified_for_def)
  qed
next
  show "(\<exists>ex. kill0 eC p = Some ex \<and> is_OSError ex) \<and> fst (check_worker_statuses eC r) = None \<longrightarrow>
            map_of (workers (snd (check_worker_statuses eC r))) name =
              Some (w\<lparr>status := ''completed'', end_time := Some (now eC)\<rparr>) \<and>
            (\<exists>m. notified_for name (snd (check_worker_statuses eC r)) =
                   notified_for name r @ [(name, notify_target w, m)]) \<and>
            kill_worker eK name (snd (check_worker_statuses eC r)) =
              (Inr False, snd (check_worker_statuses eC r)) \<and>
            notified_for name (snd (check_worker_statuses eC' (snd (check_worker_statuses eC r)))) =
              notified_for name (snd (check_worker_statuses eC r))"
  proof
    assume a: "(\<exists>ex. kill0 eC p = Some ex \<and> is_OSError ex) \<and> fst (check_worker_statuses eC r) = None"
    then obtain ex where ex: "kill0 eC p = Some ex" "is_OSError ex" by blast
    from a have ok: "fst (check_worker_statuses eC r) = None" by simp
    from check_gone [OF assms ex ok]
    have g: "map_of (workers (snd (check_worker_statuses eC r))) name =
              Some (w\<lparr>status := ''completed'', end_time := Some (now eC)\<rparr>)"
      "\<exists>m. notified_for name (snd (check_worker_statuses eC r)) =
                   notified_for name r @ [(name, notify_target w, m)]"
      by simp_all
    from g(1) have k: "kill_worker eK name (snd (check_worker_statuses eC r)) =
              (Inr False, snd (check_worker_statuses eC r))"
      by (simp add: kill_worker_def split: option.splits)
    have "status (w\<lparr>status := ''completed'', end_time := Some (now eC)\<rparr>) \<noteq> ''running''"
      by simp
    from check_not_running [OF check_distinct [OF assms(1)] g(1) this, of eC']
    have again: "notified_for name (snd (check_worker_statuses eC' (snd (check_worker_statuses eC r)))) =
              notified_for name (snd (check_worker_statuses eC r))"
      by simp
    from g k again show "map_of (workers (snd (check_worker_statuses eC r))) name =
              Some (w\<lparr>status := ''completed'', end_time := Some (now eC)\<rparr>) \<and>
            (\<exists>m. notified_for name (snd (check_worker_statuses eC r)) =
                   notified_for name r @ [(name, notify_target w, m)]) \<and>
            kill_worker eK name (snd (check_worker_statuses eC r)) =
              (Inr False, snd (check_worker_statuses eC r)) \<and>
            notified_for name (snd (check_worker_statuses eC' (snd (check_worker_statuses eC r)))) =
              notified_for name (snd (check_worker_statuses eC r))"
      by simp
  qed
qed

section \<open>Kill and the status sweep interleaved\<close>

text \<open>
  The blocks of one thread, run without the other thread in between, are the whole
  operation: three blocks of the kill are \<^verbatim>\<open>kill_worker\<close>, and on a registry with distinct
  keys the blocks of the sweep, run to their end, are \<^verbatim>\<open>_check_worker_statuses\<close>.
\<close>

lemma write_status_update:
  "map_of al name = Some w \<Longrightarrow>
   write_status name st t al = AList.update name (w\<lparr>status := st, end_time := Some t\<rparr>) al"
  unfolding write_status_def
  by (induction al) (auto split: if_splits)

lemma interleave_append:
  "interleave eK eS name (xs @ ys) c = interleave eK eS name ys (interleave eK eS name xs c)"
  by (simp add: interleave_def)

lemma kill_thread_alone:
  "interleave eK eS name [Kill_thread, Kill_thread, Kill_thread] (K_guard, s, r) =
     (K_done (fst (kill_worker eK name r)), s, snd (kill_worker eK name r))"
proof (cases "map_of (workers r) name")
  case None
  then show ?thesis by (simp add: interleave_def kill_worker_def)
next
  case (Some w)
  show ?thesis
  proof (cases "pid w")
    case None
    with Some show ?thesis by (simp add: interleave_def kill_worker_def)
  next
    case p: (Some p)
    show ?thesis
    proof (cases "status w \<noteq> ''running'' \<or> p = 0")
      case True
      with Some p show ?thesis by (auto simp: interleave_def kill_worker_def)
    next
      case False
      show ?thesis
      proof (cases "killpg eK p")
        case None
        with Some p False show ?thesis
          by (simp add: interleave_def kill_worker_def save_workers_def write_status_update)
      next
        case ex: (Some ex)
        with Some p False show ?thesis
          by (cases "is_OSError ex")
            (simp_all add: interleave_def kill_worker_def save_workers_def write_status_update)
      qed
    qed
  qed
qed

lemma sweep_more:
  "interleave eK eS name (replicate (a + b) Sweep_thread) c =
   interleave eK eS name (replicate b Sweep_thread) (interleave eK eS name (replicate a Sweep_thread) c)"
  by (simp add: replicate_add interleave_append)

lemma sweep_done_stays:
  "interleave eK eS name (replicate m Sweep_thread) (k, S_done x, r) = (k, S_done x, r)"
  by (induction m) (simp_all add: interleave_def)

lemma sweep_thread_loop:
  assumes "distinct (map fst snap)"
    and "\<forall>n w. (n, w) \<in> set snap \<longrightarrow> map_of (workers r) n = Some w"
  shows "\<exists>m. interleave eK eS name (replicate m Sweep_thread) (k, S_loop (map fst snap) u, r) =
           (case check_loop eS snap u r of
              (x, u', r') \<Rightarrow>
                (k, S_done x, (case x of None \<Rightarrow> if u' then save_workers r' else r' | Some ex \<Rightarrow> r')))"
  using assms
proof (induction snap arbitrary: u r)
  case Nil
  have "interleave eK eS name (replicate 1 Sweep_thread) (k, S_loop (map fst []) u, r) =
          (k, S_done None, if u then save_workers r else r)"
    by (simp add: interleave_def)
  then show ?case by (intro exI [of _ 1]) simp
next
  case (Cons a snap)
  obtain n0 w0 where a: "a = (n0, w0)" by (cases a)
  let ?names = "map fst snap"
  let ?r1 = "r\<lparr>workers := AList.update n0 (w0\<lparr>status := ''completed'', end_time := Some (now eS)\<rparr>) (workers r)\<rparr>"
  from Cons.prems a have cur: "map_of (workers r) n0 = Some w0" by simp
  from Cons.prems a have d: "distinct (map fst snap)" "n0 \<notin> fst ` set snap" by simp_all
  from Cons.prems a have agree: "\<forall>n w. (n, w) \<in> set snap \<longrightarrow> map_of (workers r) n = Some w" by simp
  have mark: "write_status n0 ''completed'' (now eS) (workers r) = workers ?r1"
    using write_status_update [OF cur] by simp
  show ?case
  proof (cases rule: check_loop_turn [of eS n0 w0 snap u r])
    case skip
    have "\<exists>m. interleave eK eS name (replicate m Sweep_thread) (k, S_loop (n0 # ?names) u, r) =
            (k, S_loop ?names u, r)"
    proof (cases "pid w0")
      case None
      with cur have "interleave eK eS name (replicate 1 Sweep_thread) (k, S_loop (n0 # ?names) u, r) =
            (k, S_loop ?names u, r)"
        by (simp add: interleave_def)
      then show ?thesis ..
    next
      case (Some p)
      show ?thesis
      proof (cases "status w0 = ''running'' \<and> p \<noteq> 0")
        case False
        with cur Some have "interleave eK eS name (replicate 1 Sweep_thread) (k, S_loop (n0 # ?names) u, r) =
            (k, S_loop ?names u, r)"
          by (auto simp: interleave_def)
        then show ?thesis ..
      next
        case True
        with skip(2) Some have "kill0 eS p = None" by auto
        with cur Some True
        have "interleave eK eS name (replicate 2 Sweep_thread) (k, S_loop (n0 # ?names) u, r) =
            (k, S_loop ?names u, r)"
          by (simp add: interleave_def eval_nat_numeral)
        then show ?thesis ..
      qed
    qed
    then obtain m1 where m1: "interleave eK eS name (replicate m1 Sweep_thread) (k, S_loop (n0 # ?names) u, r) =
            (k, S_loop ?names u, r)" ..
    from Cons.IH [OF d(1) agree, of u] obtain m2 where
      m2: "interleave eK eS name (replicate m2 Sweep_thread) (k, S_loop ?names u, r) =
           (case check_loop eS snap u r of
              (x, u', r') \<Rightarrow>
                (k, S_done x, (case x of None \<Rightarrow> if u' then save_workers r' else r' | Some ex \<Rightarrow> r')))" ..
    from m1 m2 skip(1) a
    have "interleave eK eS name (replicate (m1 + m2) Sweep_thread) (k, S_loop (map fst (a # snap)) u, r) =
           (case check_loop eS (a # snap) u r of
              (x, u', r') \<Rightarrow>
                (k, S_done x, (case x of None \<Rightarrow> if u' then save_workers r' else r' | Some ex \<Rightarrow> r')))"
      by (simp add: sweep_more)
    then show ?thesis ..
  next
    case (stop p ex)
    with cur a have "interleave eK eS name (replicate 2 Sweep_thread) (k, S_loop (map fst (a # snap)) u, r) =
           (case check_loop eS (a # snap) u r of
              (x, u', r') \<Rightarrow>
                (k, S_done x, (case x of None \<Rightarrow> if u' then save_workers r' else r' | Some ex \<Rightarrow> r')))"
      by (simp add: interleave_def eval_nat_numeral)
    then show ?thesis ..
  next
    case (hc_stop p ex ex' r')
    with cur a mark have "interleave eK eS name (replicate 4 Sweep_thread) (k, S_loop (map fst (a # snap)) u, r) =
           (case check_loop eS (a # snap) u r of
              (x, u', r') \<Rightarrow>
                (k, S_done x, (case x of None \<Rightarrow> if u' then save_workers r' else r' | Some ex \<Rightarrow> r')))"
      by (simp add: interleave_def eval_nat_numeral)
    then show ?thesis ..
  next
    case (hc_go p ex r')
    with cur a mark have m1: "interleave eK eS name (replicate 4 Sweep_thread) (k, S_loop (n0 # ?names) u, r) =
           (k, S_loop ?names True, r')"
      by (simp add: interleave_def eval_nat_numeral)
    from handle_completion_cases [OF hc_go(6)] have w': "workers r' = workers ?r1" by simp
    have agree': "\<forall>n w. (n, w) \<in> set snap \<longrightarrow> map_of (workers r') n = Some w"
    proof (intro allI impI)
      fix n w assume nw: "(n, w) \<in> set snap"
      with d(2) have "n \<noteq> n0" by force
      with agree nw w' show "map_of (workers r') n = Some w" by (simp add: AList.update_conv')
    qed
    from Cons.IH [OF d(1) agree', of True] obtain m2 where
      m2: "interleave eK eS name (replicate m2 Sweep_thread) (k, S_loop ?names True, r') =
           (case check_loop eS snap True r' of
              (x, u', r'') \<Rightarrow>
                (k, S_done x, (case x of None \<Rightarrow> if u' then save_workers r'' else r'' | Some ex \<Rightarrow> r'')))" ..
    from m1 m2 hc_go(7) a
    have "interleave eK eS name (replicate (4 + m2) Sweep_thread) (k, S_loop (map fst (a # snap)) u, r) =
           (case check_loop eS (a # snap) u r of
              (x, u', r') \<Rightarrow>
                (k, S_done x, (case x of None \<Rightarrow> if u' then save_workers r' else r' | Some ex \<Rightarrow> r')))"
      by (simp add: sweep_more)
    then show ?thesis ..
  qed
qed

lemma sweep_thread_alone:
  assumes "distinct (map fst (workers r))"
  shows "\<exists>m. interleave eK eS name (replicate m Sweep_thread) (k, S_loop (map fst (workers r)) False, r) =
           (k, S_done (fst (check_worker_statuses eS r)), snd (check_worker_statuses eS r))"
proof -
  from assms have "\<forall>n w. (n, w) \<in> set (workers r) \<longrightarrow> map_of (workers r) n = Some w"
    by (auto intro: map_of_is_SomeI)
  from sweep_thread_loop [OF assms this, of eK eS name k False] obtain m where
    m: "interleave eK eS name (replicate m Sweep_thread) (k, S_loop (map fst (workers r)) False, r) =
           (case check_loop eS (workers r) False r of
              (x, u', r') \<Rightarrow>
                (k, S_done x, (case x of None \<Rightarrow> if u' then save_workers r' else r' | Some ex \<Rightarrow> r')))" ..
  obtain x u' r' where cl: "check_loop eS (workers r) False r = (x, u', r')"
    by (cases "check_loop eS (workers r) False r") auto
  with m have "interleave eK eS name (replicate m Sweep_thread) (k, S_loop (map fst (workers r)) False, r) =
           (k, S_done (fst (check_worker_statuses eS r)), snd (check_worker_statuses eS r))"
    by (cases x) (simp_all add: check_worker_statuses_def)
  then show ?thesis ..
qed

text \<open>
  C1 fails on the code. Both paths observe the termination of the process of a \<^verbatim>\<open>running\<close>
  worker: \<^verbatim>\<open>os.kill(pid, 0)\<close> of the sweep and \<^verbatim>\<open>os.killpg\<close> of the kill both raise an
  \<^verbatim>\<open>OSError\<close>. Under the schedule of the race both pass their guard on the status. The
  sweep flips the record to \<^verbatim>\<open>completed\<close> and dispatches the notification while the kill
  is already past its guard; then the kill writes \<^verbatim>\<open>dead\<close> and a new \<^verbatim>\<open>end_time\<close> over
  it, writes the registry file and returns \<^verbatim>\<open>True\<close>. So the handling of the termination
  runs twice, and the final status is that of the path that flipped the record second,
  where the claim has it run at most once and the final status be that of the path that
  flipped the record first.
\<close>

theorem kill_overwrites_sweep:
  assumes "map_of (workers r) name = Some w" and "status w = ''running''"
    and "pid w = Some p" and "p \<noteq> 0"
    and "kill0 eS p = Some exS" and "is_OSError exS"
    and "killpg eK p = Some exK" and "is_OSError exK"
    and "extract_summary (json_loads eS) (read_log eS (log_file w)) = Inr (JStr s)"
  shows "interleave eK eS name [Sweep_thread, Sweep_thread, Kill_thread, Sweep_thread, Sweep_thread]
           (K_guard, S_loop (name # rest) u, r) =
         (K_signal p, S_loop rest True,
          r\<lparr>workers := AList.update name (w\<lparr>status := ''completed'', end_time := Some (now eS)\<rparr>) (workers r),
             notified := notified r @
               [(name, notify_target w,
                 message_of name (clean_summary s) (duration_str (py_int (now eS - start_time w))))]\<rparr>) \<and>
         interleave eK eS name race_schedule (K_guard, S_loop (name # rest) u, r) =
         (K_done (Inr True), S_loop rest True,
          r\<lparr>workers := AList.update name (w\<lparr>status := ''dead'', end_time := Some (now eK)\<rparr>) (workers r),
             notified := notified r @
               [(name, notify_target w,
                 message_of name (clean_summary s) (duration_str (py_int (now eS - start_time w))))],
             writes := writes r @
               [AList.update name (w\<lparr>status := ''dead'', end_time := Some (now eK)\<rparr>) (workers r)]\<rparr>)"
proof -
  let ?wc = "w\<lparr>status := ''completed'', end_time := Some (now eS)\<rparr>"
  let ?msg = "message_of name (clean_summary s) (duration_str (py_int (now eS - start_time w)))"
  let ?r4 = "r\<lparr>workers := AList.update name ?wc (workers r)\<rparr>"
  let ?r5 = "?r4\<lparr>notified := notified r @ [(name, notify_target w, ?msg)]\<rparr>"
  have s12: "interleave eK eS name [Sweep_thread, Sweep_thread] (K_guard, S_loop (name # rest) u, r) =
          (K_guard, S_mark name rest, r)"
    using assms(1-6) by (simp add: interleave_def)
  have s3: "interleave eK eS name [Kill_thread] (K_guard, S_mark name rest, r) =
          (K_signal p, S_mark name rest, r)"
    using assms(1-4) by (simp add: interleave_def)
  have s4: "interleave eK eS name [Sweep_thread] (K_signal p, S_mark name rest, r) =
          (K_signal p, S_notify name rest, ?r4)"
    using write_status_update [OF assms(1)] by (simp add: interleave_def)
  have m4: "map_of (workers ?r4) name = Some ?wc" by (simp add: AList.update_conv')
  have hc: "handle_completion eS name ?r4 = (None, ?r5)"
    using m4 assms(9)
    by (simp add: handle_completion_def notify_completion_def format_completion_message_def)
  have s5: "interleave eK eS name [Sweep_thread] (K_signal p, S_notify name rest, ?r4) =
          (K_signal p, S_loop rest True, ?r5)"
    using hc by (simp add: interleave_def)
  have m5: "map_of (workers ?r5) name = Some ?wc" by (simp add: AList.update_conv')
  have s67: "interleave eK eS name [Kill_thread, Kill_thread] (K_signal p, S_loop rest True, ?r5) =
          (K_done (Inr True), S_loop rest True,
           save_workers (?r5\<lparr>workers := AList.update name (?wc\<lparr>status := ''dead'', end_time := Some (now eK)\<rparr>) (workers ?r5)\<rparr>))"
    using assms(7,8) write_status_update [OF m5] by (simp add: interleave_def)
  have five: "[Sweep_thread, Sweep_thread, Kill_thread, Sweep_thread, Sweep_thread] =
      [Sweep_thread, Sweep_thread] @ [Kill_thread] @ [Sweep_thread] @ [Sweep_thread]" by simp
  have seven: "race_schedule =
      [Sweep_thread, Sweep_thread] @ [Kill_thread] @ [Sweep_thread] @ [Sweep_thread] @ [Kill_thread, Kill_thread]"
    by (simp add: race_schedule_def)
  have a: "interleave eK eS name [Sweep_thread, Sweep_thread, Kill_thread, Sweep_thread, Sweep_thread]
           (K_guard, S_loop (name # rest) u, r) = (K_signal p, S_loop rest True, ?r5)"
    unfolding five interleave_append s12 s3 s4 s5 ..
  have b: "interleave eK eS name race_schedule (K_guard, S_loop (name # rest) u, r) =
          (K_done (Inr True), S_loop rest True,
           save_workers (?r5\<lparr>workers := AList.update name (?wc\<lparr>status := ''dead'', end_time := Some (now eK)\<rparr>) (workers ?r5)\<rparr>))"
    unfolding seven interleave_append s12 s3 s4 s5 s67 ..
  from a b show ?thesis by (simp add: save_workers_def)
qed

theorem kill_overwrites_sweep_witness:
  "map_of (workers runner1) ''t1'' = Some (worker0 ''running'' (Some 4242)) \<and>
   kill0 env0 4242 = Some no_such_process \<and> killpg env0 4242 = Some no_such_process \<and>
   is_OSError no_such_process \<and>
   fst (interleave env0 env0 ''t1''
      [Sweep_thread, Sweep_thread, Kill_thread, Sweep_thread, Sweep_thread]
      (K_guard, S_loop [''t1''] False, runner1)) = K_signal 4242 \<and>
   map_of (workers (snd (snd (interleave env0 env0 ''t1''
      [Sweep_thread, Sweep_thread, Kill_thread, Sweep_thread, Sweep_thread]
      (K_guard, S_loop [''t1''] False, runner1))))) ''t1'' =
     Some ((worker0 ''running'' (Some 4242))\<lparr>status := ''completed'', end_time := Some 100\<rparr>) \<and>
   fst (interleave env0 env0 ''t1'' race_schedule (K_guard, S_loop [''t1''] False, runner1)) =
     K_done (Inr True) \<and>
   map_of (workers (snd (snd (interleave env0 env0 ''t1'' race_schedule
      (K_guard, S_loop [''t1''] False, runner1))))) ''t1'' =
     Some ((worker0 ''running'' (Some 4242))\<lparr>status := ''dead'', end_time := Some 100\<rparr>) \<and>
   length (notified (snd (snd (interleave env0 env0 ''t1'' race_schedule
      (K_guard, S_loop [''t1''] False, runner1))))) = 1 \<and>
   fst (snd (interleave env0 env0 ''t1'' (race_schedule @ [Sweep_thread])
      (K_guard, S_loop [''t1''] False, runner1))) = S_done None"
proof -
  have a: "map_of (workers runner1) ''t1'' = Some (worker0 ''running'' (Some 4242))"
    "status (worker0 ''running'' (Some 4242)) = ''running''"
    "pid (worker0 ''running'' (Some 4242)) = Some 4242" "(4242::int) \<noteq> 0"
    by (simp_all add: demo_defs)
  have b: "kill0 env0 4242 = Some no_such_process" "is_OSError no_such_process"
    "killpg env0 4242 = Some no_such_process" "is_OSError no_such_process"
    by (simp_all add: demo_defs)
  have c: "extract_summary (json_loads env0) (read_log env0 (log_file (worker0 ''running'' (Some 4242)))) =
      Inr (JStr ''No output captured'')"
    by (simp add: demo_defs extract_summary_def extract_summary_body_def)
  have d: "now env0 = 100" by (simp add: demo_defs)
  note t = kill_overwrites_sweep [OF a b c, where rest = "[]" and u = False]
  from t have five: "fst (interleave env0 env0 ''t1''
      [Sweep_thread, Sweep_thread, Kill_thread, Sweep_thread, Sweep_thread]
      (K_guard, S_loop [''t1''] False, runner1)) = K_signal 4242"
    "map_of (workers (snd (snd (interleave env0 env0 ''t1''
      [Sweep_thread, Sweep_thread, Kill_thread, Sweep_thread, Sweep_thread]
      (K_guard, S_loop [''t1''] False, runner1))))) ''t1'' =
     Some ((worker0 ''running'' (Some 4242))\<lparr>status := ''completed'', end_time := Some 100\<rparr>)"
    by (simp_all add: AList.update_conv' d)
  from t have seven: "fst (interleave env0 env0 ''t1'' race_schedule (K_guard, S_loop [''t1''] False, runner1)) =
     K_done (Inr True)"
    "map_of (workers (snd (snd (interleave env0 env0 ''t1'' race_schedule
      (K_guard, S_loop [''t1''] False, runner1))))) ''t1'' =
     Some ((worker0 ''running'' (Some 4242))\<lparr>status := ''dead'', end_time := Some 100\<rparr>)"
    "length (notified (snd (snd (interleave env0 env0 ''t1'' race_schedule
      (K_guard, S_loop [''t1''] False, runner1))))) = 1"
    by (simp_all add: AList.update_conv' d runner1_def runner0_def)
  from t have last: "fst (snd (interleave env0 env0 ''t1'' (race_schedule @ [Sweep_thread])
      (K_guard, S_loop [''t1''] False, runner1))) = S_done None"
    by (simp add: interleave_append) (simp add: interleave_def)
  from a(1) b(1,3,2) five seven last show ?thesis by blast
qed

end
